theory Spec2Isabelle
  imports Complex_Main
begin

section \<open>Python strings\<close>


definition ascii_lower_char :: "char \<Rightarrow> char" where
  "ascii_lower_char c =
     (let n = of_char c :: nat
      in if 65 \<le> n \<and> n \<le> 90 then char_of (n + 32) else c)"

definition ascii_lower :: "string \<Rightarrow> string" where
  "ascii_lower s = map ascii_lower_char s"

text \<open>The character class \<open>[a-zA-Z0-9]\<close> of the regular expression in \<open>normalize_name\<close>.\<close>

definition is_alnum :: "char \<Rightarrow> bool" where
  "is_alnum c =
     (let n = of_char c :: nat
      in (97 \<le> n \<and> n \<le> 122) \<or> (65 \<le> n \<and> n \<le> 90) \<or> (48 \<le> n \<and> n \<le> 57))"


text \<open>\<open>xs in ys\<close> on strings: \<open>xs\<close> occurs in \<open>ys\<close> as a contiguous block.\<close>

fun starts_with :: "'a list \<Rightarrow> 'a list \<Rightarrow> bool" where
  "starts_with ys [] = True"
| "starts_with [] (x # xs) = False"
| "starts_with (y # ys) (x # xs) = (x = y \<and> starts_with ys xs)"

fun py_in :: "'a list \<Rightarrow> 'a list \<Rightarrow> bool" where
  "py_in xs [] = (xs = [])"
| "py_in xs (y # ys) = (starts_with (y # ys) xs \<or> py_in xs ys)"

section \<open>merge_datasets.py\<close>

subsection \<open>normalize_name\<close>

text \<open>
  The argument is a \<open>str\<close> or \<open>None\<close>.  \<open>not name\<close> holds for \<open>None\<close> and for the
  empty string; otherwise every character outside \<open>[a-zA-Z0-9]\<close> is deleted from
  \<open>name.lower()\<close>.
\<close>

definition normalize_name :: "(string \<Rightarrow> string) \<Rightarrow> string option \<Rightarrow> string" where
  "normalize_name lower name =
     (case name of
        None \<Rightarrow> []
      | Some s \<Rightarrow> if s = [] then [] else filter is_alnum (lower s))"

subsection \<open>Errors and records\<close>

text \<open>The exceptions that the two scripts can meet; \<open>OtherError\<close> stands for any further
  exception of class \<open>Exception\<close> (a decoding or operating-system fault while reading).\<close>

datatype py_error =
    FileNotFoundError
  | IndexError
  | KeyError
  | AttributeError
  | TypeError
  | ValueError
  | OtherError

text \<open>
  A cell read by \<open>csv.DictReader\<close> is a \<open>str\<close>, or \<open>None\<close> when the line was shorter than
  the header.  A record is the dictionary that \<open>DictReader\<close> yields: the cells under the
  column names, in insertion order, and under the key \<open>None\<close> the list of surplus fields of
  a line that was longer than the header (\<open>rest\<close>, absent for every other line).
\<close>

type_synonym cell = "string option"

record row =
  cols :: "(string \<times> cell) list"
  rest :: "string list option"

text \<open>\<open>d[k] = v\<close> on an insertion-ordered dictionary.\<close>

fun dict_set :: "('k \<times> 'v) list \<Rightarrow> 'k \<Rightarrow> 'v \<Rightarrow> ('k \<times> 'v) list" where
  "dict_set [] k v = [(k, v)]"
| "dict_set ((k', v') # d) k v =
     (if k' = k then (k, v) # d else (k', v') # dict_set d k v)"

text \<open>\<open>row.get(k)\<close> for a column name \<open>k\<close>: \<open>None\<close> when the key is missing,
  \<open>Some None\<close> when the cell is Python's \<open>None\<close>.\<close>

definition get_field :: "row \<Rightarrow> string \<Rightarrow> cell option" where
  "get_field r k = map_of (cols r) k"

definition set_field :: "row \<Rightarrow> string \<Rightarrow> cell \<Rightarrow> row" where
  "set_field r k v = r\<lparr>cols := dict_set (cols r) k v\<rparr>"

text \<open>\<open>row.keys()\<close>: the column names, then the key \<open>None\<close> of a long line.\<close>

definition row_keys :: "row \<Rightarrow> string option list" where
  "row_keys r =
     map (\<lambda>kv. Some (fst kv)) (cols r) @ (case rest r of None \<Rightarrow> [] | Some _ \<Rightarrow> [None])"

text \<open>\<open>row.get(k, '').lower()\<close>: a missing key gives the lower-cased empty string, a cell
  that is \<open>None\<close> has no method \<open>lower\<close>.\<close>

definition get_lower :: "(string \<Rightarrow> string) \<Rightarrow> row \<Rightarrow> string \<Rightarrow> py_error + string" where
  "get_lower lower r k =
     (case get_field r k of
        None \<Rightarrow> Inr (lower [])
      | Some None \<Rightarrow> Inl AttributeError
      | Some (Some s) \<Rightarrow> Inr (lower s))"

subsection \<open>get_inferred_data\<close>

text \<open>The dictionary with the keys \<open>Major\<close>, \<open>Activities\<close> and \<open>ProgramList\<close>.\<close>

record 'v descr =
  Major :: 'v
  Activities :: 'v
  ProgramList :: 'v

definition high_bundle :: "string descr" where
  "high_bundle =
     \<lparr>Major = ''Knowledge Engineering'',
      Activities = ''Programming/Coding (e.g., VS Code, IntelliJ, Python), Running Virtual Machines (e.g., VMware, VirtualBox), CAD/3D Modeling (e.g., AutoCAD, Blender), Graphic Design/Video Editing'',
      ProgramList = ''TensorFlow, PyTorch, Unity, Unreal Engine''\<rparr>"

definition mid_bundle :: "string descr" where
  "mid_bundle =
     \<lparr>Major = ''Software Engineering'',
      Activities = ''Programming/Coding (e.g., VS Code, IntelliJ, Python), Web Browsing and Research, Office/Documentation (e.g., Word, Excel, Google Docs), Database Management'',
      ProgramList = ''VS Code, Git, Postman, XAMPP''\<rparr>"

definition low_bundle :: "string descr" where
  "low_bundle =
     \<lparr>Major = ''No Major Yet'',
      Activities = ''Web Browsing and Research, Office/Documentation (e.g., Word, Excel, Google Docs)'',
      ProgramList = ''Chrome, Word, Excel''\<rparr>"

text \<open>
  \<open>int(row.get('ram(GB)', 0))\<close> inside \<open>try\<close> ... \<open>except ValueError\<close>.  The built-in
  conversion of a string is the parameter \<open>int_of\<close> (\<open>None\<close> where \<open>int\<close> raises
  \<open>ValueError\<close>).  A missing key gives \<open>int(0)\<close>; \<open>int(None)\<close> raises \<open>TypeError\<close>, which
  the handler does not catch.
\<close>

definition read_ram :: "(string \<Rightarrow> int option) \<Rightarrow> row \<Rightarrow> py_error + int" where
  "read_ram int_of r =
     (case get_field r ''ram(GB)'' of
        None \<Rightarrow> Inr 0
      | Some None \<Rightarrow> Inl TypeError
      | Some (Some s) \<Rightarrow> (case int_of s of None \<Rightarrow> Inr 0 | Some n \<Rightarrow> Inr n))"

definition get_inferred_data ::
  "(string \<Rightarrow> int option) \<Rightarrow> (string \<Rightarrow> string) \<Rightarrow> row \<Rightarrow> py_error + string descr" where
  "get_inferred_data int_of lower r =
     (case read_ram int_of r of
        Inl e \<Rightarrow> Inl e
      | Inr ram \<Rightarrow>
     (case get_lower lower r ''graphics'' of
        Inl e \<Rightarrow> Inl e
      | Inr gpu \<Rightarrow>
     (case get_lower lower r ''processor_name'' of
        Inl e \<Rightarrow> Inl e
      | Inr cpu \<Rightarrow>
          (let is_high_spec =
                 (ram \<ge> 16 \<or> py_in ''rtx'' gpu \<or> py_in ''gtx'' gpu \<or> py_in ''radeon rx'' gpu);
               is_mid_spec = (ram \<ge> 8)
           in if is_high_spec then Inr high_bundle
              else if is_mid_spec then Inr mid_bundle
              else Inr low_bundle))))"

subsection \<open>main: cleaning a catalog record\<close>

text \<open>\<open>not row.get(k) or row[k] in ['Missing', 'NULL', 'null', 'None', '']\<close>.\<close>

definition is_placeholder :: "cell option \<Rightarrow> bool" where
  "is_placeholder v =
     (case v of
        None \<Rightarrow> True
      | Some None \<Rightarrow> True
      | Some (Some s) \<Rightarrow> s = [] \<or> s \<in> set [''Missing'', ''NULL'', ''null'', ''None'', ''''])"

definition impute_graphics :: "(string \<Rightarrow> string) \<Rightarrow> row \<Rightarrow> py_error + row" where
  "impute_graphics lower r =
     (if is_placeholder (get_field r ''graphics'') then
        (case get_lower lower r ''processor_name'' of
           Inl e \<Rightarrow> Inl e
         | Inr proc \<Rightarrow>
             Inr (set_field r ''graphics''
               (Some (if py_in ''intel'' proc then ''Intel Integrated Graphics''
                      else if py_in ''amd'' proc \<or> py_in ''ryzen'' proc then ''AMD Radeon Graphics''
                      else ''Integrated Graphics''))))
      else Inr r)"

definition impute_default :: "string \<Rightarrow> string \<Rightarrow> row \<Rightarrow> row" where
  "impute_default k dflt r =
     (if is_placeholder (get_field r k) then set_field r k (Some dflt) else r)"

text \<open>The three \<open>if\<close> statements that fill missing hardware data.\<close>

definition clean_row :: "(string \<Rightarrow> string) \<Rightarrow> row \<Rightarrow> py_error + row" where
  "clean_row lower r =
     (case impute_graphics lower r of
        Inl e \<Rightarrow> Inl e
      | Inr r1 \<Rightarrow>
          Inr (impute_default ''resolution (pixels)'' ''1920 x 1080''
                (impute_default ''screen_size(inches)'' ''15.6'' r1)))"

subsection \<open>main: matching and merging\<close>

text \<open>An entry of \<open>survey_data\<close>.\<close>

record survey_row = "cell descr" +
  model_normalized :: string

text \<open>The \<open>for survey_row in survey_data\<close> loop with its \<open>break\<close>.\<close>

definition matches :: "string \<Rightarrow> survey_row \<Rightarrow> bool" where
  "matches laptop_model_norm s =
     (model_normalized s \<noteq> [] \<and>
      (py_in (model_normalized s) laptop_model_norm
       \<or> py_in laptop_model_norm (model_normalized s)))"

fun find_match :: "string \<Rightarrow> survey_row list \<Rightarrow> survey_row option" where
  "find_match laptop_model_norm [] = None"
| "find_match laptop_model_norm (s # survey_data) =
     (if matches laptop_model_norm s then Some s
      else find_match laptop_model_norm survey_data)"

text \<open>\<open>not row['ProgramList'] or row['ProgramList'].lower() in ['none', 'nan', '']\<close>.\<close>

definition program_list_missing :: "(string \<Rightarrow> string) \<Rightarrow> cell \<Rightarrow> bool" where
  "program_list_missing lower v =
     (case v of
        None \<Rightarrow> True
      | Some s \<Rightarrow> s = [] \<or> lower s \<in> set [''none'', ''nan'', ''''])"

definition merge_row ::
  "(string \<Rightarrow> int option) \<Rightarrow> (string \<Rightarrow> string) \<Rightarrow> survey_row option \<Rightarrow> row \<Rightarrow> py_error + row" where
  "merge_row int_of lower match r =
     (case match of
        Some m \<Rightarrow>
          (let r1 = set_field r ''Major'' (Major m);
               r2 = set_field r1 ''Activities'' (Activities m);
               r3 = set_field r2 ''ProgramList'' (ProgramList m)
           in if program_list_missing lower (ProgramList m) then
                (case get_inferred_data int_of lower r3 of
                   Inl e \<Rightarrow> Inl e
                 | Inr inferred \<Rightarrow>
                     Inr (set_field r3 ''ProgramList'' (Some (ProgramList inferred))))
              else Inr r3)
      | None \<Rightarrow>
          (case get_inferred_data int_of lower r of
             Inl e \<Rightarrow> Inl e
           | Inr inferred \<Rightarrow>
               (let r1 = set_field r ''Major'' (Some (Major inferred));
                    r2 = set_field r1 ''Activities'' (Some (Activities inferred))
                in Inr (set_field r2 ''ProgramList'' (Some (ProgramList inferred))))))"

text \<open>The body of the \<open>for row in reader\<close> loop over the catalog.\<close>

definition process_row ::
  "(string \<Rightarrow> int option) \<Rightarrow> (string \<Rightarrow> string) \<Rightarrow> survey_row list \<Rightarrow> row \<Rightarrow> py_error + row" where
  "process_row int_of lower survey_data r =
     (case get_field r ''model_name'' of
        None \<Rightarrow> Inl KeyError
      | Some name \<Rightarrow>
          (let laptop_model_norm = normalize_name lower name
           in case clean_row lower r of
                Inl e \<Rightarrow> Inl e
              | Inr cleaned \<Rightarrow>
                  merge_row int_of lower (find_match laptop_model_norm survey_data) cleaned))"

subsection \<open>csv.DictReader\<close>

text \<open>
  A file is the list of records that \<open>csv.reader\<close> yields from it, the header line first.
  \<open>DictReader\<close> takes the first record as \<open>fieldnames\<close> (\<open>None\<close> for a file without
  lines), skips empty records, and builds for every other record \<open>dict(zip(fieldnames,
  row))\<close>; a longer record keeps its surplus under the key \<open>None\<close>, a shorter one gets the
  cell \<open>None\<close> under the remaining names.
\<close>

type_synonym csv = "string list list"

definition dict_row :: "string list \<Rightarrow> string list \<Rightarrow> row" where
  "dict_row fieldnames line =
     (let d = foldl (\<lambda>d kv. dict_set d (fst kv) (Some (snd kv))) [] (zip fieldnames line);
          lf = length fieldnames;
          lr = length line
      in if lf < lr then \<lparr>cols = d, rest = Some (drop lf line)\<rparr>
         else if lf > lr then
           \<lparr>cols = foldl (\<lambda>d k. dict_set d k None) d (drop lr fieldnames), rest = None\<rparr>
         else \<lparr>cols = d, rest = None\<rparr>)"

definition reader_fieldnames :: "csv \<Rightarrow> string list option" where
  "reader_fieldnames f = (case f of [] \<Rightarrow> None | h # ls \<Rightarrow> Some h)"

definition reader_rows :: "csv \<Rightarrow> row list" where
  "reader_rows f =
     (case f of [] \<Rightarrow> [] | h # ls \<Rightarrow> map (dict_row h) (filter (\<lambda>l. l \<noteq> []) ls))"

subsection \<open>main: reading the survey\<close>

text \<open>
  \<open>[k for k in row.keys() if P(k.lower())]\<close>: the key \<open>None\<close> of a long line has no
  method \<open>lower\<close>.
\<close>

fun keys_where ::
  "(string \<Rightarrow> string) \<Rightarrow> (string \<Rightarrow> bool) \<Rightarrow> string option list \<Rightarrow> py_error + string list" where
  "keys_where lower P [] = Inr []"
| "keys_where lower P (None # ks) = Inl AttributeError"
| "keys_where lower P (Some k # ks) =
     (case keys_where lower P ks of
        Inl e \<Rightarrow> Inl e
      | Inr found \<Rightarrow> Inr (if P (lower k) then k # found else found))"

text \<open>The comprehension followed by \<open>[0]\<close>.\<close>

definition first_key ::
  "(string \<Rightarrow> string) \<Rightarrow> (string \<Rightarrow> bool) \<Rightarrow> row \<Rightarrow> py_error + string" where
  "first_key lower P r =
     (case keys_where lower P (row_keys r) of
        Inl e \<Rightarrow> Inl e
      | Inr [] \<Rightarrow> Inl IndexError
      | Inr (k # found) \<Rightarrow> Inr k)"

text \<open>\<open>row[k]\<close>.\<close>

definition item :: "row \<Rightarrow> string \<Rightarrow> py_error + cell" where
  "item r k = (case get_field r k of None \<Rightarrow> Inl KeyError | Some v \<Rightarrow> Inr v)"

definition survey_entry :: "(string \<Rightarrow> string) \<Rightarrow> row \<Rightarrow> py_error + survey_row" where
  "survey_entry lower r =
     (case first_key lower (py_in ''laptop model'') r of
        Inl e \<Rightarrow> Inl e
      | Inr model_key \<Rightarrow>
     (case first_key lower (py_in ''major'') r of
        Inl e \<Rightarrow> Inl e
      | Inr major_key \<Rightarrow>
     (case first_key lower (py_in ''activities'') r of
        Inl e \<Rightarrow> Inl e
      | Inr activity_key \<Rightarrow>
     (case first_key lower (\<lambda>k. py_in ''specialized software'' k \<and> py_in ''list'' k) r of
        Inl e \<Rightarrow> Inl e
      | Inr program_list_key \<Rightarrow>
     (case item r model_key of
        Inl e \<Rightarrow> Inl e
      | Inr model \<Rightarrow>
     (case item r major_key of
        Inl e \<Rightarrow> Inl e
      | Inr major \<Rightarrow>
     (case item r activity_key of
        Inl e \<Rightarrow> Inl e
      | Inr activities \<Rightarrow>
     (case item r program_list_key of
        Inl e \<Rightarrow> Inl e
      | Inr program_list \<Rightarrow>
          Inr \<lparr>Major = major, Activities = activities, ProgramList = program_list,
               model_normalized = normalize_name lower model\<rparr>))))))))"

fun read_survey :: "(string \<Rightarrow> string) \<Rightarrow> row list \<Rightarrow> py_error + survey_row list" where
  "read_survey lower [] = Inr []"
| "read_survey lower (r # rs) =
     (case survey_entry lower r of
        Inl e \<Rightarrow> Inl e
      | Inr s \<Rightarrow>
          (case read_survey lower rs of
             Inl e \<Rightarrow> Inl e
           | Inr survey_data \<Rightarrow> Inr (s # survey_data)))"

subsection \<open>main: the catalog loop and the writer\<close>

fun process_rows ::
  "(string \<Rightarrow> int option) \<Rightarrow> (string \<Rightarrow> string) \<Rightarrow> survey_row list \<Rightarrow> row list
   \<Rightarrow> py_error + row list" where
  "process_rows int_of lower survey_data [] = Inr []"
| "process_rows int_of lower survey_data (r # rs) =
     (case process_row int_of lower survey_data r of
        Inl e \<Rightarrow> Inl e
      | Inr r' \<Rightarrow>
          (case process_rows int_of lower survey_data rs of
             Inl e \<Rightarrow> Inl e
           | Inr merged_rows \<Rightarrow> Inr (r' # merged_rows)))"

text \<open>
  \<open>csv.DictWriter\<close> with its defaults: a dictionary with a key outside \<open>fieldnames\<close>
  raises \<open>ValueError\<close>; a missing key and the cell \<open>None\<close> are written as the empty
  string.  \<open>writerows\<close> writes the records one by one, so the records before a failing
  one have been written when the exception leaves it.
\<close>

definition dict_to_list :: "string list \<Rightarrow> row \<Rightarrow> py_error + string list" where
  "dict_to_list fieldnames r =
     (if list_ex (\<lambda>k. k \<notin> set (map Some fieldnames)) (row_keys r) then Inl ValueError
      else Inr (map (\<lambda>k. case get_field r k of Some (Some s) \<Rightarrow> s | _ \<Rightarrow> []) fieldnames))"

fun writerows :: "string list \<Rightarrow> row list \<Rightarrow> csv \<times> py_error option" where
  "writerows fieldnames [] = ([], None)"
| "writerows fieldnames (r # rs) =
     (case dict_to_list fieldnames r of
        Inl e \<Rightarrow> ([], Some e)
      | Inr line \<Rightarrow>
          (case writerows fieldnames rs of (written, err) \<Rightarrow> (line # written, err)))"

subsection \<open>main\<close>

text \<open>
  The two input files, \<open>None\<close> for a path that does not exist.  A run returns what it
  printed, the content of the output file if the run opened it for writing, and the
  exception that left \<open>main\<close>, if any.
\<close>

record files =
  laptop_file :: "csv option"
  survey_file :: "csv option"

record run =
  printed :: "string list"
  output_file :: "csv option"
  raised :: "py_error option"

definition aborted :: "py_error \<Rightarrow> run" where
  "aborted e = \<lparr>printed = [], output_file = None, raised = Some e\<rparr>"

definition main ::
  "(string \<Rightarrow> int option) \<Rightarrow> (string \<Rightarrow> string) \<Rightarrow> files \<Rightarrow> run" where
  "main int_of lower fs =
     (case laptop_file fs of
        None \<Rightarrow>
          \<lparr>printed = [''Error: dataset/laptop.csv not found.''],
           output_file = None, raised = None\<rparr>
      | Some laptop \<Rightarrow>
     (case survey_file fs of
        None \<Rightarrow>
          \<lparr>printed = [''Error: dataset/UIT Student Laptop Usage Survey (Responses) - Form responses 1.csv not found.''],
           output_file = None, raised = None\<rparr>
      | Some survey \<Rightarrow>
     (case read_survey lower (reader_rows survey) of
        Inl e \<Rightarrow> aborted e
      | Inr survey_data \<Rightarrow>
     (case reader_fieldnames laptop of
        None \<Rightarrow> aborted TypeError
      | Some names \<Rightarrow>
          (let fieldnames = names @ [''Major'', ''Activities'', ''ProgramList'']
           in case process_rows int_of lower survey_data (reader_rows laptop) of
                Inl e \<Rightarrow> aborted e
              | Inr merged_rows \<Rightarrow>
                  (case writerows fieldnames merged_rows of
                     (written, None) \<Rightarrow>
                       \<lparr>printed = [''Successfully merged data to dataset/merged_laptop_data_cleaned.csv''],
                        output_file = Some (fieldnames # written), raised = None\<rparr>
                   | (written, Some e) \<Rightarrow>
                       \<lparr>printed = [], output_file = Some (fieldnames # written),
                        raised = Some e\<rparr>))))))"

section \<open>check_missing.py\<close>

text \<open>
  \<open>str.strip\<close> removes the white space at both ends.  The white-space characters of a
  \<open>str\<close> are the code points 9..13, 28..32, 133, 160, 5760, 8192..8202, 8232, 8233, 8239,
  8287 and 12288; \<open>whitespace\<close> lists their encodings.
\<close>

definition whitespace :: "string list" where
  "whitespace =
     [[CHR 0x09], [CHR 0x0A], [CHR 0x0B], [CHR 0x0C], [CHR 0x0D],
      [CHR 0x1C], [CHR 0x1D], [CHR 0x1E], [CHR 0x1F], [CHR 0x20],
      [CHR 0xC2, CHR 0x85], [CHR 0xC2, CHR 0xA0], [CHR 0xE1, CHR 0x9A, CHR 0x80],
      [CHR 0xE2, CHR 0x80, CHR 0x80], [CHR 0xE2, CHR 0x80, CHR 0x81],
      [CHR 0xE2, CHR 0x80, CHR 0x82], [CHR 0xE2, CHR 0x80, CHR 0x83],
      [CHR 0xE2, CHR 0x80, CHR 0x84], [CHR 0xE2, CHR 0x80, CHR 0x85],
      [CHR 0xE2, CHR 0x80, CHR 0x86], [CHR 0xE2, CHR 0x80, CHR 0x87],
      [CHR 0xE2, CHR 0x80, CHR 0x88], [CHR 0xE2, CHR 0x80, CHR 0x89],
      [CHR 0xE2, CHR 0x80, CHR 0x8A], [CHR 0xE2, CHR 0x80, CHR 0xA8],
      [CHR 0xE2, CHR 0x80, CHR 0xA9], [CHR 0xE2, CHR 0x80, CHR 0xAF],
      [CHR 0xE2, CHR 0x81, CHR 0x9F], [CHR 0xE3, CHR 0x80, CHR 0x80]]"

text \<open>Removing, as long as there is one, a sequence of \<open>ws\<close> from the front of \<open>s\<close>.\<close>

function strip_front :: "string list \<Rightarrow> string \<Rightarrow> string" where
  "strip_front ws s =
     (case find (\<lambda>w. w \<noteq> [] \<and> starts_with s w) ws of
        None \<Rightarrow> s
      | Some w \<Rightarrow> strip_front ws (drop (length w) s))"
  by pat_completeness auto
termination
proof (relation "measure (\<lambda>(ws, s). length s)")
  show "wf (measure (\<lambda>(ws, s). length s))" by simp
next
  fix ws :: "string list" and s w :: string
  assume "find (\<lambda>w. w \<noteq> [] \<and> starts_with s w) ws = Some w"
  then have w: "w \<noteq> []" and sw: "starts_with s w"
    by (auto simp add: find_Some_iff)
  then have "s \<noteq> []" by (cases s; cases w) auto
  then show "((ws, drop (length w) s), (ws, s)) \<in> measure (\<lambda>(ws, s). length s)"
    using w by simp
qed

declare strip_front.simps [simp del]

definition strip :: "string \<Rightarrow> string" where
  "strip s = rev (strip_front (map rev whitespace) (rev (strip_front whitespace s)))"

text \<open>\<open>str(n)\<close> for a natural number.\<close>

fun str_nat :: "nat \<Rightarrow> string" where
  "str_nat n =
     (if n < 10 then [char_of (48 + n)]
      else str_nat (n div 10) @ [char_of (48 + n mod 10)])"

text \<open>\<open>str(key)\<close> for a key of a record.\<close>

definition str_key :: "string option \<Rightarrow> string" where
  "str_key key = (case key of None \<Rightarrow> ''None'' | Some k \<Rightarrow> k)"

definition missing_keywords :: "string list" where
  "missing_keywords = [''nan'', ''none'', ''null'', ''missing'', '''']"

text \<open>\<open>value is None\<close>, or \<open>str(value).strip().lower() in missing_keywords\<close>, for a cell.\<close>

definition cell_missing :: "(string \<Rightarrow> string) \<Rightarrow> cell \<Rightarrow> bool" where
  "cell_missing lower v =
     (case v of
        None \<Rightarrow> True
      | Some s \<Rightarrow> lower (strip s) \<in> set missing_keywords)"

text \<open>\<open>missing_counts[key] += 1\<close>.\<close>

fun dict_incr :: "('k \<times> nat) list \<Rightarrow> 'k \<Rightarrow> py_error + ('k \<times> nat) list" where
  "dict_incr [] k = Inl KeyError"
| "dict_incr ((k', n) # d) k =
     (if k' = k then Inr ((k', n + 1) # d)
      else (case dict_incr d k of Inl e \<Rightarrow> Inl e | Inr d' \<Rightarrow> Inr ((k', n) # d')))"

text \<open>
  The loop over \<open>row.items()\<close>.  The item under the key \<open>None\<close> of a long line holds a
  non-empty list; it is not \<open>None\<close>, and its \<open>str\<close> starts with a bracket, so it is
  never counted: only the cells under the column names can be.
\<close>

fun count_items ::
  "(string \<Rightarrow> string) \<Rightarrow> (string option \<times> nat) list \<Rightarrow> (string \<times> cell) list
   \<Rightarrow> py_error + (string option \<times> nat) list" where
  "count_items lower missing_counts [] = Inr missing_counts"
| "count_items lower missing_counts ((key, v) # items) =
     (if cell_missing lower v then
        (case dict_incr missing_counts (Some key) of
           Inl e \<Rightarrow> Inl e
         | Inr missing_counts' \<Rightarrow> count_items lower missing_counts' items)
      else count_items lower missing_counts items)"

fun count_rows ::
  "(string \<Rightarrow> string) \<Rightarrow> (string option \<times> nat) list \<Rightarrow> row list
   \<Rightarrow> py_error + (string option \<times> nat) list" where
  "count_rows lower missing_counts [] = Inr missing_counts"
| "count_rows lower missing_counts (r # data) =
     (case count_items lower missing_counts (cols r) of
        Inl e \<Rightarrow> Inl e
      | Inr missing_counts' \<Rightarrow> count_rows lower missing_counts' data)"

text \<open>
  The percentage \<open>f"{count/total_rows*100:.2f}"\<close> is computed in double precision: the
  quotient of the two integers is rounded to the nearest double, the product of that
  double and 100 is rounded to the nearest double, and the result is printed with the
  two decimals nearest to it; every rounding takes the even neighbour in a tie.  A positive
  double is a pair \<open>(m, e)\<close> with \<open>2 ^ 52 \<le> m < 2 ^ 53\<close> that stands for \<open>m * 2 ^ e\<close>.  The
  range of the exponent of a double is left out: it is not reached by the quotient of a
  positive count and a number of records.
\<close>

text \<open>The number of binary digits of \<open>n\<close>.\<close>

fun bitlen :: "nat \<Rightarrow> nat" where
  "bitlen n = (if n = 0 then 0 else Suc (bitlen (n div 2)))"

declare bitlen.simps [simp del]

text \<open>The integer nearest to \<open>n / d\<close>, the even one in a tie.\<close>

definition round_half_even :: "nat \<Rightarrow> nat \<Rightarrow> nat" where
  "round_half_even n d =
     (let q = n div d; r = n mod d
      in if 2 * r < d then q else if d < 2 * r then q + 1 else if even q then q else q + 1)"

type_synonym double = "nat \<times> int"

text \<open>The exponent \<open>e\<close> with \<open>2 ^ e \<le> n / d < 2 ^ (e + 1)\<close>, for positive \<open>n\<close> and \<open>d\<close>.\<close>

definition exponent :: "nat \<Rightarrow> nat \<Rightarrow> int" where
  "exponent n d =
     (let k = int (bitlen n) - int (bitlen d)
      in if (if 0 \<le> k then d * 2 ^ nat k \<le> n else d \<le> n * 2 ^ nat (- k)) then k else k - 1)"

text \<open>The double nearest to \<open>n / d\<close>, for positive \<open>n\<close> and \<open>d\<close>: \<open>n / d\<close> is scaled into
  the range of the 53 binary digits of \<open>m\<close> and rounded there.\<close>

definition nearest_double :: "nat \<Rightarrow> nat \<Rightarrow> double" where
  "nearest_double n d =
     (let e = exponent n d;
          s = 52 - e;
          m = (if 0 \<le> s then round_half_even (n * 2 ^ nat s) d
               else round_half_even n (d * 2 ^ nat (- s)))
      in if m = 2 ^ 53 then (2 ^ 52, e - 51) else (m, e - 52))"

text \<open>A double as a fraction.\<close>

definition double_num :: "double \<Rightarrow> nat" where
  "double_num x = (case x of (m, e) \<Rightarrow> if 0 \<le> e then m * 2 ^ nat e else m)"

definition double_den :: "double \<Rightarrow> nat" where
  "double_den x = (case x of (m, e) \<Rightarrow> if 0 \<le> e then 1 else 2 ^ nat (- e))"

text \<open>\<open>x * 100\<close>.\<close>

definition times_100 :: "double \<Rightarrow> double" where
  "times_100 x = nearest_double (100 * double_num x) (double_den x)"

text \<open>
  \<open>f"{x:.2f}"\<close>: the number of hundredths nearest to \<open>x\<close>, and the text of a number of
  hundredths with two decimals.
\<close>

definition hundredths :: "double \<Rightarrow> nat" where
  "hundredths x = round_half_even (100 * double_num x) (double_den x)"

definition decimal_2 :: "nat \<Rightarrow> string" where
  "decimal_2 h =
     str_nat (h div 100) @ ''.'' @ [char_of (48 + h mod 100 div 10), char_of (48 + h mod 10)]"

definition format_2f :: "double \<Rightarrow> string" where
  "format_2f x = decimal_2 (hundredths x)"

definition pct_text :: "nat \<Rightarrow> nat \<Rightarrow> string" where
  "pct_text count total_rows = format_2f (times_100 (nearest_double count total_rows))"

text \<open>
  What the analyzer prints: a line of text, or \<open>Error:\<close> followed by the text of an
  exception.
\<close>

datatype out_line = Line string | Error_line py_error

definition report_line :: "nat \<Rightarrow> string option \<times> nat \<Rightarrow> out_line" where
  "report_line total_rows kc =
     (case kc of (key, count) \<Rightarrow>
        if count > 0 then
          Line (str_key key @ '': '' @ str_nat count @ '' ('' @ pct_text count total_rows @ ''%)'')
        else Line (str_key key @ '': 0''))"

text \<open>
  The \<open>try\<close> block, applied to the result of opening and reading the file (\<open>Inl e\<close> when
  that raised \<open>e\<close>): the lines printed, and the exception that ended the block, if any.
\<close>

definition analyze_try ::
  "(string \<Rightarrow> string) \<Rightarrow> py_error + csv \<Rightarrow> out_line list \<times> py_error option" where
  "analyze_try lower opened =
     (case opened of
        Inl e \<Rightarrow> ([], Some e)
      | Inr f \<Rightarrow>
          (case reader_rows f of
             [] \<Rightarrow> ([Line ''No data found.''], None)
           | first # others \<Rightarrow>
               (let data = first # others;
                    total_rows = length data;
                    shown = [Line (''Total Rows: '' @ str_nat total_rows)];
                    headers = row_keys first;
                    missing_counts = foldl (\<lambda>d header. dict_set d header 0) [] headers
                in case count_rows lower missing_counts data of
                     Inl e \<Rightarrow> (shown, Some e)
                   | Inr missing_counts' \<Rightarrow>
                       (shown @ [Line (CHR 0x0A # ''Missing Values per Column:'')]
                          @ map (report_line total_rows) missing_counts', None))))"

text \<open>
  \<open>analyze_missing\<close>: the first \<open>print\<close>, the \<open>try\<close> block and its two handlers.  The
  last component is the exception that reaches the caller.
\<close>

definition analyze_missing ::
  "(string \<Rightarrow> string) \<Rightarrow> string \<Rightarrow> py_error + csv \<Rightarrow> out_line list \<times> py_error option" where
  "analyze_missing lower file_path opened =
     (case analyze_try lower opened of
        (shown, None) \<Rightarrow> (Line (''Analyzing '' @ file_path @ ''...'') # shown, None)
      | (shown, Some FileNotFoundError) \<Rightarrow>
          (Line (''Analyzing '' @ file_path @ ''...'') # shown
             @ [Line (''File not found: '' @ file_path)], None)
      | (shown, Some e) \<Rightarrow>
          (Line (''Analyzing '' @ file_path @ ''...'') # shown @ [Error_line e], None))"

section \<open>Survey headers\<close>

text \<open>
  A header lacks an expected column when no column name contains, in lower case,
  \<open>laptop model\<close>, or none contains \<open>major\<close>, or none contains \<open>activities\<close>, or none
  contains both \<open>specialized software\<close> and \<open>list\<close>.
\<close>

definition lacks_expected_column :: "(string \<Rightarrow> string) \<Rightarrow> string list \<Rightarrow> bool" where
  "lacks_expected_column lower header =
     (\<not> list_ex (\<lambda>k. py_in ''laptop model'' (lower k)) header
      \<or> \<not> list_ex (\<lambda>k. py_in ''major'' (lower k)) header
      \<or> \<not> list_ex (\<lambda>k. py_in ''activities'' (lower k)) header
      \<or> \<not> list_ex (\<lambda>k. py_in ''specialized software'' (lower k) \<and> py_in ''list'' (lower k)) header)"

section \<open>Counting missing cells\<close>

text \<open>
  A cell is missing when it is absent, or when its text, trimmed and case-folded, is
  \<open>nan\<close>, \<open>none\<close>, \<open>null\<close>, \<open>missing\<close> or empty.
\<close>

definition absent_or_keyword :: "(string \<Rightarrow> string) \<Rightarrow> cell \<Rightarrow> bool" where
  "absent_or_keyword lower v =
     (case v of
        None \<Rightarrow> True
      | Some s \<Rightarrow>
          (let t = lower (strip s)
           in t = ''nan'' \<or> t = ''none'' \<or> t = ''null'' \<or> t = ''missing'' \<or> t = []))"

text \<open>
  The number of records of \<open>data\<close> whose cell under \<open>key\<close> is missing.  The key
  \<open>None\<close> of a long line holds no cell.
\<close>

definition missing_count :: "(string \<Rightarrow> string) \<Rightarrow> row list \<Rightarrow> string option \<Rightarrow> nat" where
  "missing_count lower data key =
     (case key of
        None \<Rightarrow> 0
      | Some k \<Rightarrow>
          length (filter (\<lambda>r. case get_field r k of
                                   None \<Rightarrow> False
                                 | Some v \<Rightarrow> absent_or_keyword lower v) data))"

text \<open>Whether the loop over the items of one record counts the key.\<close>

definition counted ::
  "(string \<Rightarrow> string) \<Rightarrow> (string \<times> cell) list \<Rightarrow> string option \<Rightarrow> bool" where
  "counted lower items key =
     (case key of
        None \<Rightarrow> False
      | Some k \<Rightarrow> (case map_of items k of None \<Rightarrow> False | Some v \<Rightarrow> cell_missing lower v))"

text \<open>The keys of a dictionary after \<open>d[k] = v\<close>.\<close>

definition add_key :: "'k list \<Rightarrow> 'k \<Rightarrow> 'k list" where
  "add_key ks k = (if k \<in> set ks then ks else ks @ [k])"

section \<open>Example data\<close>

text \<open>
  A conversion for the examples: the value of the numerals that occur in them.  The other
  strings of the examples are not numerals, and \<open>int\<close> raises \<open>ValueError\<close> on them.
\<close>

definition example_int :: "string \<Rightarrow> int option" where
  "example_int s =
     (if s = ''4'' then Some 4 else if s = ''8'' then Some 8
      else if s = ''16'' then Some 16 else if s = ''32'' then Some 32 else None)"

text \<open>A catalog record, the same record after \<open>clean_row\<close>, and three survey answers.\<close>

definition macbook :: row where
  "macbook =
     \<lparr>cols = [(''model_name'', Some ''MacBook Pro 14''), (''ram(GB)'', Some ''4''),
              (''graphics'', Some ''''), (''processor_name'', Some ''Intel Core i5''),
              (''screen_size(inches)'', Some ''NULL''),
              (''resolution (pixels)'', Some ''Missing'')],
      rest = None\<rparr>"

definition macbook_cleaned :: row where
  "macbook_cleaned =
     \<lparr>cols = [(''model_name'', Some ''MacBook Pro 14''), (''ram(GB)'', Some ''4''),
              (''graphics'', Some ''Intel Integrated Graphics''),
              (''processor_name'', Some ''Intel Core i5''),
              (''screen_size(inches)'', Some ''15.6''),
              (''resolution (pixels)'', Some ''1920 x 1080'')],
      rest = None\<rparr>"

definition thinkpad_answer :: survey_row where
  "thinkpad_answer =
     \<lparr>Major = Some ''Computer Science'', Activities = Some ''Gaming'',
      ProgramList = Some ''MATLAB'', model_normalized = ''thinkpadx1''\<rparr>"

definition macbook_answer :: survey_row where
  "macbook_answer =
     \<lparr>Major = Some '''', Activities = Some ''Web Browsing and Research'',
      ProgramList = Some ''None'', model_normalized = ''macbookpro''\<rparr>"

definition macbook_later_answer :: survey_row where
  "macbook_later_answer =
     \<lparr>Major = Some ''Software Engineering'', Activities = Some ''Programming/Coding'',
      ProgramList = Some ''VS Code'', model_normalized = ''macbook''\<rparr>"

definition example_survey :: "survey_row list" where
  "example_survey = [thinkpad_answer, macbook_answer, macbook_later_answer]"

text \<open>A catalog record whose model name has no letter or digit, and a survey whose first
  answer has an empty key.\<close>

definition unnamed :: row where
  "unnamed =
     \<lparr>cols = [(''model_name'', Some ''---''), (''ram(GB)'', Some ''invalid''),
              (''graphics'', Some ''Intel UHD''), (''processor_name'', Some ''Intel Core i3''),
              (''screen_size(inches)'', Some ''14''),
              (''resolution (pixels)'', Some ''1366 x 768'')],
      rest = None\<rparr>"

definition blank_answer :: survey_row where
  "blank_answer =
     \<lparr>Major = Some ''Computer Science'', Activities = Some ''Gaming'',
      ProgramList = Some ''Unity'', model_normalized = ''''\<rparr>"

definition blank_first_survey :: "survey_row list" where
  "blank_first_survey = [blank_answer, macbook_answer, thinkpad_answer]"

text \<open>The field \<open>k\<close> of the record that a step returned.\<close>

definition result_field :: "py_error + row \<Rightarrow> string \<Rightarrow> py_error + cell option" where
  "result_field res k = (case res of Inl e \<Rightarrow> Inl e | Inr r \<Rightarrow> Inr (get_field r k))"

text \<open>
  Two catalog files with a line shorter than the header, the records that \<open>DictReader\<close>
  yields for these lines, and a survey file without answers.
\<close>

definition short_ram_line :: row where
  "short_ram_line =
     dict_row [''model_name'', ''graphics'', ''processor_name'', ''ram(GB)'']
       [''Dell Inspiron 15'', ''Intel UHD Graphics'', ''Intel Core i5'']"

definition short_processor_line :: row where
  "short_processor_line =
     dict_row [''model_name'', ''ram(GB)'', ''processor_name'', ''graphics'']
       [''Dell Inspiron 15'', ''8'']"

definition empty_survey_file :: csv where
  "empty_survey_file = [[''Timestamp'', ''What is the laptop model you primarily use?'']]"

definition short_ram_file :: csv where
  "short_ram_file =
     [[''model_name'', ''graphics'', ''processor_name'', ''ram(GB)''],
      [''Dell Inspiron 15'', ''Intel UHD Graphics'', ''Intel Core i5'']]"

definition short_processor_file :: csv where
  "short_processor_file =
     [[''model_name'', ''ram(GB)'', ''processor_name'', ''graphics''],
      [''Dell Inspiron 15'', ''8'']]"

text \<open>Two survey files without a column for the major, the second with an answer longer
  than the header, and a catalog file with one record.\<close>

definition no_major_survey :: csv where
  "no_major_survey =
     [[''Timestamp'', ''What is the laptop model you primarily use for your studies?''],
      [''2024-01-01'', ''MacBook Pro'']]"

definition long_line_survey :: csv where
  "long_line_survey =
     [[''Timestamp'', ''What is the laptop model you primarily use for your studies?''],
      [''2024-01-01'', ''MacBook Pro'', ''Software Engineering'']]"

definition one_laptop_file :: csv where
  "one_laptop_file =
     [[''model_name'', ''ram(GB)'', ''processor_name'', ''graphics''],
      [''MacBook Pro 14'', ''16'', ''Apple M1'', ''Apple GPU'']]"

text \<open>A file with an empty line, a short line and a long line.\<close>

definition ragged_file :: csv where
  "ragged_file =
     [[''model_name'', ''graphics''],
      [''Aspire 5'', ''RTX 3060''],
      [],
      [''Vivobook'', ''''],
      [''Ideapad''],
      [''Pavilion'', '' NaN '', ''surplus'']]"

text \<open>
  A survey file with one answer, for a MacBook and with an empty major, the record of this
  answer, and a catalog file whose only record is \<open>macbook\<close>.
\<close>

definition survey_header :: "string list" where
  "survey_header =
     [''Timestamp'',
      ''What is the laptop model you primarily use for your studies?(You can find your pc model in your system settings)'',
      ''What is your major?'',
      ''Which activities do you use your laptop for?'',
      ''If you use specialized software, please list it'']"

definition macbook_survey_file :: csv where
  "macbook_survey_file =
     [survey_header,
      [''2024-01-01'', ''MacBook Pro'', '''', ''Web Browsing and Research'', ''None'']]"

definition macbook_file :: csv where
  "macbook_file =
     [[''model_name'', ''ram(GB)'', ''graphics'', ''processor_name'',
       ''screen_size(inches)'', ''resolution (pixels)''],
      [''MacBook Pro 14'', ''4'', '''', ''Intel Core i5'', ''NULL'', ''Missing'']]"

definition macbook_survey_line :: row where
  "macbook_survey_line =
     \<lparr>cols = zip survey_header
               [Some ''2024-01-01'', Some ''MacBook Pro'', Some [],
                Some ''Web Browsing and Research'', Some ''None''],
      rest = None\<rparr>"

text \<open>
  A survey file with one answer, for a Dell Inspiron and with \<open>None\<close> as its list of
  programs, and the survey record of this answer.
\<close>

definition dell_survey_file :: csv where
  "dell_survey_file =
     [survey_header,
      [''2024-01-02'', ''Dell Inspiron'', ''Business'', ''Office Work'', ''None'']]"

definition dell_answer :: survey_row where
  "dell_answer =
     \<lparr>Major = Some ''Business'', Activities = Some ''Office Work'',
      ProgramList = Some ''None'', model_normalized = ''dellinspiron''\<rparr>"

text \<open>A file of ten records, three of them with an empty \<open>graphics\<close>.\<close>

definition ten_row_file :: csv where
  "ten_row_file =
     [[''model_name'', ''graphics''],
      [''Aspire 5'', ''RTX 3060''],
      [''Vivobook'', ''''],
      [''Ideapad'', ''Intel UHD''],
      [''Pavilion'', ''''],
      [''Legion 5'', ''RTX 4060''],
      [''Swift 3'', ''Iris Xe''],
      [''Latitude'', ''''],
      [''Zenbook'', ''Iris Xe''],
      [''Nitro 5'', ''GTX 1650''],
      [''Envy 13'', ''Iris Xe'']]"



section \<open>Properties\<close>

subsection \<open>Strings\<close>

text \<open>Rewrite rules that evaluate the string functions on literals.\<close>

lemmas str_eval = ascii_lower_def ascii_lower_char_def is_alnum_def char_of_def bit_0












lemma starts_with_iff:
  "starts_with ys xs \<longleftrightarrow> (\<exists>zs. ys = xs @ zs)"
  by (induction ys xs rule: starts_with.induct) auto

lemma py_in_iff:
  "py_in xs ys \<longleftrightarrow> (\<exists>ps ss. ys = ps @ xs @ ss)"
proof (induction ys)
  case Nil
  then show ?case by simp
next
  case (Cons y ys)
  show ?case
  proof
    assume "py_in xs (y # ys)"
    then consider "starts_with (y # ys) xs" | "py_in xs ys" by auto
    then show "\<exists>ps ss. y # ys = ps @ xs @ ss"
    proof cases
      case 1
      then obtain zs where "y # ys = xs @ zs" by (auto simp add: starts_with_iff)
      then have "y # ys = [] @ xs @ zs" by simp
      then show ?thesis by blast
    next
      case 2
      then obtain ps ss where "ys = ps @ xs @ ss" using Cons.IH by auto
      then have "y # ys = (y # ps) @ xs @ ss" by simp
      then show ?thesis by blast
    qed
  next
    assume "\<exists>ps ss. y # ys = ps @ xs @ ss"
    then obtain ps ss where eq: "y # ys = ps @ xs @ ss" by blast
    show "py_in xs (y # ys)"
    proof (cases ps)
      case Nil
      then have "starts_with (y # ys) xs" using eq by (auto simp add: starts_with_iff)
      then show ?thesis by simp
    next
      case (Cons p ps')
      then have "ys = ps' @ xs @ ss" using eq by simp
      then have "py_in xs ys" using Cons.IH by blast
      then show ?thesis by simp
    qed
  qed
qed

lemma py_in_Nil [simp]: "py_in [] ys"
  by (induction ys) simp_all

subsection \<open>Records\<close>

lemma map_of_dict_set:
  "map_of (dict_set d k v) = (map_of d)(k \<mapsto> v)"
  by (induction d k v rule: dict_set.induct) auto

lemma get_field_set_field:
  "get_field (set_field r k v) k' = (if k' = k then Some v else get_field r k')"
  by (simp add: get_field_def set_field_def map_of_dict_set)

lemma rest_set_field: "rest (set_field r k v) = rest r"
  by (simp add: set_field_def)

lemma get_inferred_data_cong:
  assumes "get_field r ''ram(GB)'' = get_field r' ''ram(GB)''"
    and "get_field r ''graphics'' = get_field r' ''graphics''"
    and "get_field r ''processor_name'' = get_field r' ''processor_name''"
  shows "get_inferred_data int_of lower r = get_inferred_data int_of lower r'"
proof -
  have "read_ram int_of r = read_ram int_of r'"
    using assms(1) by (simp add: read_ram_def)
  moreover have "get_lower lower r ''graphics'' = get_lower lower r' ''graphics''"
    using assms(2) by (simp add: get_lower_def)
  moreover have "get_lower lower r ''processor_name'' = get_lower lower r' ''processor_name''"
    using assms(3) by (simp add: get_lower_def)
  ultimately show ?thesis
    by (simp add: get_inferred_data_def split: sum.splits)
qed

lemma find_match_None:
  "find_match k svs = None \<longleftrightarrow> (\<forall>s \<in> set svs. \<not> matches k s)"
  by (induction svs) auto

lemma find_match_Some:
  "find_match k svs = Some s \<longleftrightarrow>
     (\<exists>pre post. svs = pre @ s # post \<and> matches k s \<and> (\<forall>t \<in> set pre. \<not> matches k t))"
proof (induction svs)
  case Nil
  then show ?case by simp
next
  case (Cons a svs)
  show ?case
  proof (cases "matches k a")
    case True
    have "(\<exists>pre post. a # svs = pre @ s # post \<and> matches k s \<and> (\<forall>t \<in> set pre. \<not> matches k t))
          \<longleftrightarrow> a = s"
    proof
      assume "\<exists>pre post. a # svs = pre @ s # post \<and> matches k s \<and> (\<forall>t \<in> set pre. \<not> matches k t)"
      then obtain pre post where eq: "a # svs = pre @ s # post"
        and pre: "\<forall>t \<in> set pre. \<not> matches k t" by blast
      show "a = s"
      proof (cases pre)
        case Nil
        then show ?thesis using eq by simp
      next
        case (Cons p ps)
        then have "a \<in> set pre" using eq by simp
        then show ?thesis using pre True by blast
      qed
    next
      assume "a = s"
      then have "a # svs = [] @ s # svs \<and> matches k s \<and> (\<forall>t \<in> set []. \<not> matches k t)"
        using True by simp
      then show "\<exists>pre post. a # svs = pre @ s # post \<and> matches k s \<and> (\<forall>t \<in> set pre. \<not> matches k t)"
        by blast
    qed
    then show ?thesis using True by simp
  next
    case False
    have "(\<exists>pre post. a # svs = pre @ s # post \<and> matches k s \<and> (\<forall>t \<in> set pre. \<not> matches k t))
          \<longleftrightarrow> (\<exists>pre post. svs = pre @ s # post \<and> matches k s \<and> (\<forall>t \<in> set pre. \<not> matches k t))"
    proof
      assume "\<exists>pre post. a # svs = pre @ s # post \<and> matches k s \<and> (\<forall>t \<in> set pre. \<not> matches k t)"
      then obtain pre post where eq: "a # svs = pre @ s # post" and m: "matches k s"
        and pre: "\<forall>t \<in> set pre. \<not> matches k t" by blast
      show "\<exists>pre post. svs = pre @ s # post \<and> matches k s \<and> (\<forall>t \<in> set pre. \<not> matches k t)"
      proof (cases pre)
        case Nil
        then show ?thesis using eq m False by simp
      next
        case (Cons p ps)
        then have "svs = ps @ s # post \<and> matches k s \<and> (\<forall>t \<in> set ps. \<not> matches k t)"
          using eq m pre by simp
        then show ?thesis by blast
      qed
    next
      assume "\<exists>pre post. svs = pre @ s # post \<and> matches k s \<and> (\<forall>t \<in> set pre. \<not> matches k t)"
      then obtain pre post where "svs = pre @ s # post" and "matches k s"
        and "\<forall>t \<in> set pre. \<not> matches k t" by blast
      then have "a # svs = (a # pre) @ s # post \<and> matches k s \<and> (\<forall>t \<in> set (a # pre). \<not> matches k t)"
        using False by simp
      then show "\<exists>pre post. a # svs = pre @ s # post \<and> matches k s \<and> (\<forall>t \<in> set pre. \<not> matches k t)"
        by blast
    qed
    then show ?thesis using False Cons.IH by simp
  qed
qed

lemma matches_iff:
  "matches k s \<longleftrightarrow>
     model_normalized s \<noteq> [] \<and>
     ((\<exists>ps ss. k = ps @ model_normalized s @ ss) \<or> (\<exists>ps ss. model_normalized s = ps @ k @ ss))"
  by (simp add: matches_def py_in_iff)

subsection \<open>Merging\<close>

lemma get_inferred_data_set_other:
  assumes "k \<noteq> ''ram(GB)''" and "k \<noteq> ''graphics''" and "k \<noteq> ''processor_name''"
  shows "get_inferred_data int_of lower (set_field r k v) = get_inferred_data int_of lower r"
  using assms by (intro get_inferred_data_cong) (simp_all add: get_field_set_field)

lemma get_inferred_data_bundle:
  "get_inferred_data int_of lower r = Inr b \<Longrightarrow> b = high_bundle \<or> b = mid_bundle \<or> b = low_bundle"
  by (auto simp add: get_inferred_data_def Let_def split: sum.splits if_splits)

lemma bundle_nonempty:
  assumes "b = high_bundle \<or> b = mid_bundle \<or> b = low_bundle"
  shows "Major b \<noteq> [] \<and> Activities b \<noteq> [] \<and> ProgramList b \<noteq> []"
  using assms by (auto simp add: high_bundle_def mid_bundle_def low_bundle_def)

lemma program_list_missing_iff:
  "program_list_missing lower v \<longleftrightarrow>
     v = None \<or> v = Some []
     \<or> (\<exists>s. v = Some s \<and> (lower s = ''none'' \<or> lower s = ''nan'' \<or> lower s = []))"
  by (cases v) (auto simp add: program_list_missing_def)

lemma merge_row_matched_fill:
  assumes "program_list_missing lower (ProgramList m)"
    and "get_inferred_data int_of lower r = Inr inferred"
  shows "merge_row int_of lower (Some m) r =
           Inr (set_field (set_field (set_field (set_field r ''Major'' (Major m))
                  ''Activities'' (Activities m)) ''ProgramList'' (ProgramList m))
                  ''ProgramList'' (Some (ProgramList inferred)))"
  using assms by (simp add: merge_row_def Let_def get_inferred_data_set_other)

lemma merge_row_matched_keep:
  assumes "\<not> program_list_missing lower (ProgramList m)"
  shows "merge_row int_of lower (Some m) r =
           Inr (set_field (set_field (set_field r ''Major'' (Major m))
                  ''Activities'' (Activities m)) ''ProgramList'' (ProgramList m))"
  using assms by (simp add: merge_row_def Let_def)

lemma merge_row_unmatched:
  assumes "get_inferred_data int_of lower r = Inr inferred"
  shows "merge_row int_of lower None r =
           Inr (set_field (set_field (set_field r ''Major'' (Some (Major inferred)))
                  ''Activities'' (Some (Activities inferred)))
                  ''ProgramList'' (Some (ProgramList inferred)))"
  using assms by (simp add: merge_row_def Let_def)

lemma merge_row_Inr_matched:
  assumes "merge_row int_of lower (Some m) r = Inr r'"
  shows "get_field r' ''Major'' = Some (Major m) \<and> get_field r' ''Activities'' = Some (Activities m)
     \<and> (\<exists>p. get_field r' ''ProgramList'' = Some (Some p) \<and> p \<noteq> [])"
proof (cases "program_list_missing lower (ProgramList m)")
  case True
  then obtain inferred where inf: "get_inferred_data int_of lower r = Inr inferred"
    using assms by (auto simp add: merge_row_def Let_def get_inferred_data_set_other split: sum.splits)
  have "ProgramList inferred \<noteq> []"
    using get_inferred_data_bundle [OF inf] bundle_nonempty by blast
  then show ?thesis
    using assms merge_row_matched_fill [OF True inf] by (auto simp add: get_field_set_field)
next
  case False
  then obtain p where "ProgramList m = Some p" and "p \<noteq> []"
    by (cases "ProgramList m") (auto simp add: program_list_missing_def)
  then show ?thesis
    using assms merge_row_matched_keep [OF False] by (auto simp add: get_field_set_field)
qed

lemma merge_row_Inr_program_list:
  assumes "merge_row int_of lower (Some m) r = Inr r'"
  shows "if program_list_missing lower (ProgramList m)
         then \<exists>b. get_inferred_data int_of lower r = Inr b
                \<and> get_field r' ''ProgramList'' = Some (Some (ProgramList b))
         else get_field r' ''ProgramList'' = Some (ProgramList m)"
proof (cases "program_list_missing lower (ProgramList m)")
  case True
  then obtain inferred where inf: "get_inferred_data int_of lower r = Inr inferred"
    using assms by (auto simp add: merge_row_def Let_def get_inferred_data_set_other split: sum.splits)
  then show ?thesis
    using True assms merge_row_matched_fill [OF True inf] by (auto simp add: get_field_set_field)
next
  case False
  then show ?thesis
    using assms merge_row_matched_keep [OF False, of int_of r] by (auto simp add: get_field_set_field)
qed

lemma merge_row_Inr_unmatched:
  assumes "merge_row int_of lower None r = Inr r'"
  shows "\<exists>b. get_inferred_data int_of lower r = Inr b
     \<and> get_field r' ''Major'' = Some (Some (Major b)) \<and> Major b \<noteq> []
     \<and> get_field r' ''Activities'' = Some (Some (Activities b)) \<and> Activities b \<noteq> []
     \<and> get_field r' ''ProgramList'' = Some (Some (ProgramList b)) \<and> ProgramList b \<noteq> []"
proof -
  obtain b where inf: "get_inferred_data int_of lower r = Inr b"
    using assms by (auto simp add: merge_row_def split: sum.splits)
  have "Major b \<noteq> [] \<and> Activities b \<noteq> [] \<and> ProgramList b \<noteq> []"
    using get_inferred_data_bundle [OF inf] bundle_nonempty by blast
  then show ?thesis
    using assms inf merge_row_unmatched [OF inf] by (auto simp add: get_field_set_field)
qed

lemma process_row_Inr:
  assumes "process_row int_of lower survey_data r = Inr r'"
  shows "\<exists>name cleaned. get_field r ''model_name'' = Some name \<and> clean_row lower r = Inr cleaned
     \<and> merge_row int_of lower (find_match (normalize_name lower name) survey_data) cleaned = Inr r'"
  using assms by (auto simp add: process_row_def Let_def split: option.splits sum.splits)

lemma process_row_eq:
  assumes "get_field r ''model_name'' = Some name" and "clean_row lower r = Inr cleaned"
  shows "process_row int_of lower survey_data r =
           merge_row int_of lower (find_match (normalize_name lower name) survey_data) cleaned"
  using assms by (simp add: process_row_def)

lemma matches_Nil: "matches [] s \<longleftrightarrow> model_normalized s \<noteq> []"
  by (simp add: matches_def)

lemma find_match_Nil_key:
  assumes "\<exists>s \<in> set survey_data. model_normalized s \<noteq> []"
  shows "\<exists>pre m post. survey_data = pre @ m # post
     \<and> (\<forall>t \<in> set pre. model_normalized t = []) \<and> model_normalized m \<noteq> []
     \<and> find_match [] survey_data = Some m"
proof -
  have "find_match [] survey_data \<noteq> None"
    using assms by (simp add: find_match_None matches_Nil)
  then obtain m where m: "find_match [] survey_data = Some m" by blast
  then obtain pre post where "survey_data = pre @ m # post" and "matches [] m"
    and "\<forall>t \<in> set pre. \<not> matches [] t"
    using find_match_Some [of "[]" survey_data m] by blast
  then show ?thesis using m by (auto simp add: matches_Nil)
qed

subsection \<open>The examples\<close>

lemma macbook_name: "get_field macbook ''model_name'' = Some (Some ''MacBook Pro 14'')"
  by (simp add: macbook_def get_field_def)

lemma macbook_norm: "normalize_name ascii_lower (Some ''MacBook Pro 14'') = ''macbookpro14''"
  by (simp add: normalize_name_def str_eval)

lemma macbook_clean: "clean_row ascii_lower macbook = Inr macbook_cleaned"
  by (simp add: clean_row_def impute_graphics_def impute_default_def is_placeholder_def
      get_lower_def get_field_def set_field_def macbook_def macbook_cleaned_def str_eval)

lemma macbook_match: "find_match ''macbookpro14'' example_survey = Some macbook_answer"
  by (simp add: example_survey_def matches_def thinkpad_answer_def macbook_answer_def)

lemma macbook_inferred: "get_inferred_data example_int ascii_lower macbook_cleaned = Inr low_bundle"
  by (simp add: get_inferred_data_def read_ram_def get_lower_def get_field_def
      macbook_cleaned_def example_int_def str_eval)

lemma macbook_missing: "program_list_missing ascii_lower (ProgramList macbook_answer)"
  by (simp add: program_list_missing_def macbook_answer_def str_eval)

lemma unnamed_name: "get_field unnamed ''model_name'' = Some (Some ''---'')"
  by (simp add: unnamed_def get_field_def)

lemma unnamed_norm: "normalize_name ascii_lower (Some ''---'') = []"
  by (simp add: normalize_name_def str_eval)

lemma unnamed_clean: "clean_row ascii_lower unnamed = Inr unnamed"
  by (simp add: clean_row_def impute_graphics_def impute_default_def is_placeholder_def
      get_field_def unnamed_def)

lemma unnamed_inferred: "get_inferred_data example_int ascii_lower unnamed = Inr low_bundle"
  by (simp add: get_inferred_data_def read_ram_def get_lower_def get_field_def
      unnamed_def example_int_def str_eval)

lemma unnamed_match: "find_match [] blank_first_survey = Some macbook_answer"
  by (simp add: blank_first_survey_def matches_def blank_answer_def macbook_answer_def)

lemma short_ram_line_eq:
  "short_ram_line =
     \<lparr>cols = [(''model_name'', Some ''Dell Inspiron 15''), (''graphics'', Some ''Intel UHD Graphics''),
              (''processor_name'', Some ''Intel Core i5''), (''ram(GB)'', None)],
      rest = None\<rparr>"
  by (simp add: short_ram_line_def dict_row_def)

lemma short_processor_line_eq:
  "short_processor_line =
     \<lparr>cols = [(''model_name'', Some ''Dell Inspiron 15''), (''ram(GB)'', Some ''8''),
              (''processor_name'', None), (''graphics'', None)],
      rest = None\<rparr>"
  by (simp add: short_processor_line_def dict_row_def)

lemma short_ram_clean:
  "clean_row lower short_ram_line =
     Inr (set_field (set_field short_ram_line ''screen_size(inches)'' (Some ''15.6''))
            ''resolution (pixels)'' (Some ''1920 x 1080''))"
  by (simp add: short_ram_line_eq clean_row_def impute_graphics_def impute_default_def
      is_placeholder_def get_field_def set_field_def)

subsection \<open>A run on the example files\<close>

lemma macbook_survey_rows: "reader_rows macbook_survey_file = [macbook_survey_line]"
  by (simp add: reader_rows_def macbook_survey_file_def macbook_survey_line_def dict_row_def
      survey_header_def)

lemma macbook_survey_entry: "survey_entry ascii_lower macbook_survey_line = Inr macbook_answer"
  by (simp add: survey_entry_def first_key_def row_keys_def item_def get_field_def
      macbook_survey_line_def survey_header_def normalize_name_def macbook_answer_def str_eval)

lemma macbook_file_rows: "reader_rows macbook_file = [macbook]"
  by (simp add: reader_rows_def macbook_file_def macbook_def dict_row_def)

lemma macbook_processed:
  "process_row example_int ascii_lower [macbook_answer] macbook =
     Inr \<lparr>cols = [(''model_name'', Some ''MacBook Pro 14''), (''ram(GB)'', Some ''4''),
              (''graphics'', Some ''Intel Integrated Graphics''),
              (''processor_name'', Some ''Intel Core i5''),
              (''screen_size(inches)'', Some ''15.6''),
              (''resolution (pixels)'', Some ''1920 x 1080''),
              (''Major'', Some []),
              (''Activities'', Some ''Web Browsing and Research''),
              (''ProgramList'', Some ''Chrome, Word, Excel'')],
          rest = None\<rparr>"
proof -
  have m: "find_match (normalize_name ascii_lower (Some ''MacBook Pro 14'')) [macbook_answer] = Some macbook_answer"
    by (simp add: macbook_norm matches_def macbook_answer_def)
  show ?thesis
    using process_row_eq [OF macbook_name macbook_clean, of example_int "[macbook_answer]"]
      merge_row_matched_fill [OF macbook_missing macbook_inferred] m
    by (simp add: set_field_def macbook_cleaned_def macbook_answer_def low_bundle_def)
qed

lemma macbook_run:
  "main example_int ascii_lower \<lparr>laptop_file = Some macbook_file, survey_file = Some macbook_survey_file\<rparr> =
     \<lparr>printed = [''Successfully merged data to dataset/merged_laptop_data_cleaned.csv''],
      output_file = Some
        [[''model_name'', ''ram(GB)'', ''graphics'', ''processor_name'',
          ''screen_size(inches)'', ''resolution (pixels)'',
          ''Major'', ''Activities'', ''ProgramList''],
         [''MacBook Pro 14'', ''4'', ''Intel Integrated Graphics'', ''Intel Core i5'',
          ''15.6'', ''1920 x 1080'',
          [], ''Web Browsing and Research'', ''Chrome, Word, Excel'']],
      raised = None\<rparr>"
proof -
  have survey: "read_survey ascii_lower (reader_rows macbook_survey_file) = Inr [macbook_answer]"
    by (simp add: macbook_survey_rows macbook_survey_entry)
  have names: "reader_fieldnames macbook_file
                 = Some [''model_name'', ''ram(GB)'', ''graphics'', ''processor_name'',
                         ''screen_size(inches)'', ''resolution (pixels)'']"
    by (simp add: reader_fieldnames_def macbook_file_def)
  have rows: "process_rows example_int ascii_lower [macbook_answer] (reader_rows macbook_file)
      = Inr [\<lparr>cols = [(''model_name'', Some ''MacBook Pro 14''), (''ram(GB)'', Some ''4''),
              (''graphics'', Some ''Intel Integrated Graphics''),
              (''processor_name'', Some ''Intel Core i5''),
              (''screen_size(inches)'', Some ''15.6''),
              (''resolution (pixels)'', Some ''1920 x 1080''),
              (''Major'', Some []),
              (''Activities'', Some ''Web Browsing and Research''),
              (''ProgramList'', Some ''Chrome, Word, Excel'')],
          rest = None\<rparr>]"
    by (simp add: macbook_file_rows macbook_processed)
  show ?thesis
    unfolding main_def
    by (simp add: survey names rows dict_to_list_def row_keys_def get_field_def)
qed

subsection \<open>Reading the survey\<close>

lemma keys_dict_set: "fst ` set (dict_set d k v) = insert k (fst ` set d)"
  by (induction d k v rule: dict_set.induct) auto

lemma keys_foldl_zip:
  "fst ` set (foldl (\<lambda>d kv. dict_set d (fst kv) (Some (snd kv))) d kvs) = fst ` set d \<union> fst ` set kvs"
  by (induction kvs arbitrary: d) (auto simp add: keys_dict_set)

lemma keys_foldl_none:
  "fst ` set (foldl (\<lambda>d k. dict_set d k None) d ks) = fst ` set d \<union> set ks"
  by (induction ks arbitrary: d) (auto simp add: keys_dict_set)

lemma fst_set_zip_take:
  "fst ` set (zip xs ys) = set (take (length ys) xs)"
proof -
  have "map fst (zip xs ys) = take (length ys) xs"
    by (induction xs ys rule: list_induct2') auto
  then have "set (map fst (zip xs ys)) = set (take (length ys) xs)" by simp
  then show ?thesis by simp
qed

lemma keys_dict_row: "fst ` set (cols (dict_row h l)) = set h"
proof -
  have a: "set (take (length l) h) \<union> set (drop (length l) h) = set h"
    by (metis append_take_drop_id set_append)
  have b: "length h \<le> length l \<Longrightarrow> set (take (length l) h) = set h"
    by simp
  show ?thesis
    using a b by (auto simp add: dict_row_def Let_def keys_foldl_zip keys_foldl_none fst_set_zip_take)
qed

lemma rest_dict_row:
  "rest (dict_row h l) = (if length h < length l then Some (drop (length h) l) else None)"
  by (simp add: dict_row_def Let_def)

lemma keys_where_None: "None \<in> set ks \<Longrightarrow> keys_where lower P ks = Inl AttributeError"
  by (induction P ks rule: keys_where.induct) auto

lemma keys_where_Some:
  "keys_where lower P (map Some ks) = Inr (filter (\<lambda>k. P (lower k)) ks)"
  by (induction ks) auto

lemma first_key_long:
  "rest r \<noteq> None \<Longrightarrow> first_key lower P r = Inl AttributeError"
  by (auto simp add: first_key_def row_keys_def keys_where_None)

lemma keys_where_short:
  assumes "rest r = None"
  shows "keys_where lower P (row_keys r) = Inr (filter (\<lambda>k. P (lower k)) (map fst (cols r)))"
proof -
  have "row_keys r = map Some (map fst (cols r))"
    using assms by (simp add: row_keys_def)
  then show ?thesis by (simp only: keys_where_Some)
qed

lemma first_key_absent:
  assumes "rest r = None" and "\<not> list_ex (\<lambda>k. P (lower k)) (map fst (cols r))"
  shows "first_key lower P r = Inl IndexError"
proof -
  have "filter (\<lambda>k. P (lower k)) (map fst (cols r)) = []"
    using assms(2) by (auto simp add: list_ex_iff filter_empty_conv)
  then show ?thesis
    by (simp add: first_key_def keys_where_short [OF assms(1)])
qed

lemma first_key_cases:
  assumes "rest r = None"
  shows "first_key lower P r = Inl IndexError \<or> (\<exists>k. first_key lower P r = Inr k)"
  by (cases "filter (\<lambda>k. P (lower k)) (map fst (cols r))")
     (simp_all add: first_key_def keys_where_short [OF assms])

lemma survey_entry_long:
  "rest r \<noteq> None \<Longrightarrow> survey_entry lower r = Inl AttributeError"
  by (simp add: survey_entry_def first_key_long)

lemma survey_entry_lacking:
  assumes "rest r = None" and "lacks_expected_column lower (map fst (cols r))"
  shows "survey_entry lower r = Inl IndexError"
proof -
  let ?a = "first_key lower (py_in ''laptop model'') r"
  let ?b = "first_key lower (py_in ''major'') r"
  let ?c = "first_key lower (py_in ''activities'') r"
  let ?d = "first_key lower (\<lambda>k. py_in ''specialized software'' k \<and> py_in ''list'' k) r"
  have some: "?a = Inl IndexError \<or> ?b = Inl IndexError \<or> ?c = Inl IndexError \<or> ?d = Inl IndexError"
  proof -
    consider "\<not> list_ex (\<lambda>k. py_in ''laptop model'' (lower k)) (map fst (cols r))"
      | "\<not> list_ex (\<lambda>k. py_in ''major'' (lower k)) (map fst (cols r))"
      | "\<not> list_ex (\<lambda>k. py_in ''activities'' (lower k)) (map fst (cols r))"
      | "\<not> list_ex (\<lambda>k. py_in ''specialized software'' (lower k) \<and> py_in ''list'' (lower k))
             (map fst (cols r))"
      using assms(2) unfolding lacks_expected_column_def by blast
    then show ?thesis
    proof cases
      case 1
      then show ?thesis using first_key_absent [OF assms(1)] by blast
    next
      case 2
      then show ?thesis using first_key_absent [OF assms(1)] by blast
    next
      case 3
      then show ?thesis using first_key_absent [OF assms(1)] by blast
    next
      case 4
      then have "?d = Inl IndexError"
        by (rule first_key_absent [OF assms(1), of "\<lambda>k. py_in ''specialized software'' k \<and> py_in ''list'' k"])
      then show ?thesis by blast
    qed
  qed
  have a: "?a = Inl IndexError \<or> (\<exists>k. ?a = Inr k)" by (rule first_key_cases [OF assms(1)])
  have b: "?b = Inl IndexError \<or> (\<exists>k. ?b = Inr k)" by (rule first_key_cases [OF assms(1)])
  have c: "?c = Inl IndexError \<or> (\<exists>k. ?c = Inr k)" by (rule first_key_cases [OF assms(1)])
  show ?thesis
    using some a b c by (auto simp add: survey_entry_def)
qed

lemma lacks_expected_column_set:
  "set h = set h' \<Longrightarrow> lacks_expected_column lower h = lacks_expected_column lower h'"
  by (simp add: lacks_expected_column_def list_ex_iff)

lemma survey_entry_dict_row:
  assumes "lacks_expected_column lower header"
  shows "survey_entry lower (dict_row header line)
           = Inl (if length header < length line then AttributeError else IndexError)"
proof (cases "length header < length line")
  case True
  then show ?thesis by (simp add: survey_entry_long rest_dict_row)
next
  case False
  have "set (map fst (cols (dict_row header line))) = set header"
    using keys_dict_row [of header line] by simp
  then have "lacks_expected_column lower (map fst (cols (dict_row header line)))"
    using assms lacks_expected_column_set by blast
  then show ?thesis
    using False by (simp add: survey_entry_lacking rest_dict_row)
qed

lemma no_major_lacks:
  "lacks_expected_column ascii_lower
     [''Timestamp'', ''What is the laptop model you primarily use for your studies?'']"
  by (simp add: lacks_expected_column_def str_eval)

subsection \<open>The percentage\<close>

text \<open>
  The double nearest to a quotient of positive integers differs from it by at most the
  quotient divided by \<open>2 ^ 53\<close>.  So the hundredths that are printed for a count and a
  number of records are within half a hundredth of the exact percentage, for every count
  below \<open>2 ^ 53 / 60000\<close>.
\<close>

lemma round_half_even_error:
  assumes "0 < d"
  shows "\<bar>real (round_half_even n d) - real n / real d\<bar> \<le> 1 / 2"
proof -
  define q where "q = n div d"
  define r where "r = n mod d"
  have n: "real n = real q * real d + real r"
    unfolding q_def r_def by (metis div_mult_mod_eq of_nat_add of_nat_mult)
  have r: "r < d" unfolding r_def using assms by simp
  have d: "0 < real d" using assms by simp
  have *: "real n / real d = real q + real r / real d"
    using d n by (simp add: field_simps)
  consider "2 * r < d" | "d < 2 * r" | "2 * r = d" by linarith
  then show ?thesis
  proof cases
    case 1
    then have "round_half_even n d = q"
      by (simp add: round_half_even_def Let_def q_def r_def)
    moreover have "real r / real d \<le> 1 / 2"
      using 1 d by (simp add: field_simps)
    moreover have "0 \<le> real r / real d" by simp
    ultimately show ?thesis using * by simp
  next
    case 2
    then have "round_half_even n d = q + 1"
      by (simp add: round_half_even_def Let_def q_def r_def)
    moreover have "1 / 2 \<le> real r / real d"
      using 2 d by (simp add: field_simps)
    moreover have "real r / real d \<le> 1"
      using r d by (simp add: field_simps)
    ultimately show ?thesis using * by simp
  next
    case 3
    then have "round_half_even n d = q \<or> round_half_even n d = q + 1"
      by (simp add: round_half_even_def Let_def q_def r_def)
    moreover have "real r / real d = 1 / 2"
      using 3 d by (simp add: field_simps)
    ultimately show ?thesis using * by auto
  qed
qed

lemma bitlen_bounds:
  "0 < n \<Longrightarrow> (2::nat) ^ (bitlen n - 1) \<le> n \<and> n < 2 ^ bitlen n"
proof (induction n rule: bitlen.induct)
  case (1 n)
  show ?case
  proof (cases "n div 2 = 0")
    case True
    then have "n = 1" using 1(2) by linarith
    then show ?thesis by (simp add: bitlen.simps)
  next
    case False
    then have ih: "(2::nat) ^ (bitlen (n div 2) - 1) \<le> n div 2"
      and ih2: "n div 2 < 2 ^ bitlen (n div 2)"
      using 1 by simp_all
    have b: "bitlen n = Suc (bitlen (n div 2))"
      using 1(2) by (simp add: bitlen.simps [of n])
    have pos: "0 < bitlen (n div 2)"
      using False by (simp add: bitlen.simps [of "n div 2"])
    then have p: "(2::nat) ^ (bitlen n - 1) = 2 * 2 ^ (bitlen (n div 2) - 1)"
      using b by (cases "bitlen (n div 2)") simp_all
    have "2 * (n div 2) \<le> n" by simp
    then have lo: "(2::nat) ^ (bitlen n - 1) \<le> n"
      using ih p by linarith
    have "n < 2 * (n div 2) + 2" by linarith
    then have hi: "n < 2 ^ bitlen n"
      using ih2 b by simp
    show ?thesis using lo hi by simp
  qed
qed

lemma two_powr_nat: "0 \<le> j \<Longrightarrow> real ((2::nat) ^ nat j) = 2 powr (real_of_int j)"
  by (simp add: powr_realpow [symmetric])

lemma two_powr_neg: "j < 0 \<Longrightarrow> real ((2::nat) ^ nat (- j)) = 1 / 2 powr (real_of_int j)"
  using two_powr_nat [of "- j"] by (simp add: powr_minus field_simps)

lemma bitlen_real:
  assumes "0 < n"
  shows "2 powr (real (bitlen n) - 1) \<le> real n" and "real n < 2 powr (real (bitlen n))"
proof -
  have pos: "0 < bitlen n" using assms by (simp add: bitlen.simps [of n])
  have "real ((2::nat) ^ (bitlen n - 1)) \<le> real n"
    using bitlen_bounds [OF assms] by (simp only: of_nat_le_iff)
  moreover have "real (bitlen n - 1) = real (bitlen n) - 1"
    using pos by (simp add: of_nat_diff)
  ultimately show "2 powr (real (bitlen n) - 1) \<le> real n"
    by (simp add: powr_realpow [symmetric])
  have "real n < real ((2::nat) ^ bitlen n)"
    using bitlen_bounds [OF assms] by (simp only: of_nat_less_iff)
  then show "real n < 2 powr (real (bitlen n))"
    by (simp add: powr_realpow [symmetric])
qed

lemma exponent_bounds:
  assumes "0 < n" and "0 < d"
  shows "2 powr (real_of_int (exponent n d)) \<le> real n / real d"
    and "real n / real d < 2 powr (real_of_int (exponent n d) + 1)"
proof -
  define k where "k = int (bitlen n) - int (bitlen d)"
  define c where "c = (if 0 \<le> k then d * 2 ^ nat k \<le> n else d \<le> n * 2 ^ nat (- k))"
  have e: "exponent n d = (if c then k else k - 1)"
    by (simp add: exponent_def c_def k_def Let_def)
  have d: "0 < real d" and n: "0 < real n" using assms by simp_all
  have kr: "real_of_int k = real (bitlen n) - real (bitlen d)"
    by (simp add: k_def)
  have c_iff: "c \<longleftrightarrow> 2 powr (real_of_int k) \<le> real n / real d"
  proof (cases "0 \<le> k")
    case True
    then have "c \<longleftrightarrow> real (d * 2 ^ nat k) \<le> real n"
      by (simp only: c_def if_True of_nat_le_iff)
    also have "\<dots> \<longleftrightarrow> real d * 2 powr (real_of_int k) \<le> real n"
      using two_powr_nat [OF True] by simp
    also have "\<dots> \<longleftrightarrow> 2 powr (real_of_int k) \<le> real n / real d"
      using d by (simp add: field_simps)
    finally show ?thesis .
  next
    case False
    then have neg: "k < 0" by simp
    have "c \<longleftrightarrow> real d \<le> real (n * 2 ^ nat (- k))"
      using False by (simp only: c_def if_False of_nat_le_iff)
    also have "\<dots> \<longleftrightarrow> real d \<le> real n / 2 powr (real_of_int k)"
      using two_powr_neg [OF neg] by simp
    also have "\<dots> \<longleftrightarrow> 2 powr (real_of_int k) \<le> real n / real d"
      using d by (simp add: field_simps)
    finally show ?thesis .
  qed
  have hi: "real n / real d < 2 powr (real_of_int k + 1)"
  proof -
    have "real n < 2 powr (real (bitlen n))" using bitlen_real(2) [OF assms(1)] .
    moreover have "2 powr (real (bitlen d) - 1) \<le> real d" using bitlen_real(1) [OF assms(2)] .
    ultimately have "real n * 2 powr (real (bitlen d) - 1) < 2 powr (real (bitlen n)) * real d"
      using d n by (intro mult_less_le_imp_less) simp_all
    then have "real n / real d < 2 powr (real (bitlen n)) / 2 powr (real (bitlen d) - 1)"
      using d by (simp add: field_simps)
    also have "\<dots> = 2 powr (real_of_int k + 1)"
      by (simp add: kr powr_diff [symmetric] algebra_simps)
    finally show ?thesis .
  qed
  have lo: "2 powr (real_of_int k - 1) \<le> real n / real d"
  proof -
    have "2 powr (real (bitlen n) - 1) \<le> real n" using bitlen_real(1) [OF assms(1)] .
    moreover have "real d < 2 powr (real (bitlen d))" using bitlen_real(2) [OF assms(2)] .
    ultimately have "2 powr (real (bitlen n) - 1) * real d \<le> real n * 2 powr (real (bitlen d))"
      using d n by (intro mult_mono) simp_all
    then have "2 powr (real (bitlen n) - 1) / 2 powr (real (bitlen d)) \<le> real n / real d"
      using d by (simp add: field_simps)
    moreover have "2 powr (real (bitlen n) - 1) / 2 powr (real (bitlen d)) = 2 powr (real_of_int k - 1)"
      by (simp add: kr powr_diff [symmetric] algebra_simps)
    ultimately show ?thesis by simp
  qed
  show "2 powr (real_of_int (exponent n d)) \<le> real n / real d"
    using e c_iff lo by (cases c) simp_all
  show "real n / real d < 2 powr (real_of_int (exponent n d) + 1)"
    using e c_iff hi by (cases c) simp_all
qed

lemma double_value:
  "real (double_num (m, e)) / real (double_den (m, e)) = real m * 2 powr (real_of_int e)"
proof (cases "0 \<le> e")
  case True
  then show ?thesis
    using two_powr_nat [OF True] by (simp add: double_num_def double_den_def)
next
  case False
  then have "e < 0" by simp
  then show ?thesis
    using two_powr_neg [of e] by (simp add: double_num_def double_den_def)
qed

lemma double_den_pos: "0 < double_den x"
  by (cases x) (simp add: double_den_def)

lemma nearest_double_error:
  assumes "0 < n" and "0 < d"
  shows "\<bar>real (double_num (nearest_double n d)) / real (double_den (nearest_double n d))
           - real n / real d\<bar> \<le> (real n / real d) / 2 ^ 53"
proof -
  define e where "e = exponent n d"
  define s where "s = 52 - e"
  define m where "m = (if 0 \<le> s then round_half_even (n * 2 ^ nat s) d
               else round_half_even n (d * 2 ^ nat (- s)))"
  define x where "x = nearest_double n d"
  have x: "x = (if m = 2 ^ 53 then (2 ^ 52, e - 51) else (m, e - 52))"
    by (simp add: x_def nearest_double_def Let_def e_def s_def m_def)
  have d: "0 < real d" and n: "0 < real n" using assms by simp_all
  let ?ratio = "real n / real d"
  have sr: "real_of_int s = 52 - real_of_int e" by (simp add: s_def)
  have m_err: "\<bar>real m - ?ratio * 2 powr (real_of_int s)\<bar> \<le> 1 / 2"
  proof (cases "0 \<le> s")
    case True
    have r: "\<bar>real (round_half_even (n * 2 ^ nat s) d) - real (n * 2 ^ nat s) / real d\<bar> \<le> 1 / 2"
      using assms(2) by (rule round_half_even_error)
    have "real (n * 2 ^ nat s) = real n * 2 powr (real_of_int s)"
      by (simp only: of_nat_mult two_powr_nat [OF True])
    then have eq: "real (n * 2 ^ nat s) / real d = ?ratio * 2 powr (real_of_int s)"
      by simp
    have mm: "m = round_half_even (n * 2 ^ nat s) d"
      using True by (simp add: m_def)
    show ?thesis
      unfolding mm using r unfolding eq .
  next
    case False
    then have neg: "s < 0" by simp
    have "0 < d * 2 ^ nat (- s)" using assms(2) by simp
    then have r: "\<bar>real (round_half_even n (d * 2 ^ nat (- s))) - real n / real (d * 2 ^ nat (- s))\<bar> \<le> 1 / 2"
      by (rule round_half_even_error)
    have "real (d * 2 ^ nat (- s)) = real d * (1 / 2 powr (real_of_int s))"
      by (simp only: of_nat_mult two_powr_neg [OF neg])
    then have eq: "real n / real (d * 2 ^ nat (- s)) = ?ratio * 2 powr (real_of_int s)"
      by simp
    have mm: "m = round_half_even n (d * 2 ^ nat (- s))"
      using False by (simp add: m_def)
    show ?thesis
      unfolding mm using r unfolding eq .
  qed
  have val: "real (double_num x) / real (double_den x) = real m * 2 powr (- real_of_int s)"
  proof (cases "m = 2 ^ 53")
    case True
    then have "real (double_num x) / real (double_den x) = 2 ^ 52 * 2 powr (real_of_int (e - 51))"
      using double_value [of "2 ^ 52" "e - 51"] by (simp add: x)
    also have "\<dots> = 2 ^ 52 * 2 powr (1 + (real_of_int e - 52))"
      by simp
    also have "\<dots> = 2 ^ 52 * (2 powr 1 * 2 powr (real_of_int e - 52))"
      by (simp only: powr_add)
    also have "\<dots> = 2 ^ 53 * 2 powr (real_of_int e - 52)"
      by simp
    also have "\<dots> = real m * 2 powr (- real_of_int s)"
      using True by (simp add: sr)
    finally show ?thesis .
  next
    case False
    then show ?thesis
      using double_value [of m "e - 52"] by (simp add: x sr)
  qed
  have p: "0 < 2 powr (- real_of_int s)" by simp
  have "\<bar>real m * 2 powr (- real_of_int s) - ?ratio\<bar>
      = \<bar>real m - ?ratio * 2 powr (real_of_int s)\<bar> * 2 powr (- real_of_int s)"
  proof -
    have "real m * 2 powr (- real_of_int s) - ?ratio
        = (real m - ?ratio * 2 powr (real_of_int s)) * 2 powr (- real_of_int s)"
      by (simp add: algebra_simps powr_add [symmetric])
    then show ?thesis by (simp add: abs_mult)
  qed
  also have "\<dots> \<le> 1 / 2 * 2 powr (- real_of_int s)"
    using m_err by (intro mult_right_mono) simp_all
  also have "\<dots> = 2 powr (real_of_int e) / 2 ^ 53"
  proof -
    have "2 powr (- real_of_int s) = 2 powr (real_of_int e - 52)"
      by (simp add: sr)
    also have "\<dots> = 2 powr (real_of_int e) / 2 powr 52"
      by (simp only: powr_diff)
    finally have "2 powr (- real_of_int s) = 2 powr (real_of_int e) / 2 ^ 52"
      by simp
    then show ?thesis by simp
  qed
  also have "\<dots> \<le> ?ratio / 2 ^ 53"
    using exponent_bounds(1) [OF assms] by (simp add: e_def divide_right_mono)
  finally show ?thesis
    using val by (simp add: x_def)
qed

lemma hundredths_accurate:
  assumes "0 < c" and "60000 * c < 2 ^ 53" and "0 < t"
  shows "2 * \<bar>int (hundredths (times_100 (nearest_double c t))) * int t - 10000 * int c\<bar> \<le> int t"
proof -
  define x where "x = nearest_double c t"
  define y where "y = times_100 x"
  define h where "h = hundredths y"
  define r where "r = real c / real t"
  define u :: real where "u = 1 / 2 ^ 53"
  define v1 where "v1 = real (double_num x) / real (double_den x)"
  define v2 where "v2 = real (double_num y) / real (double_den y)"
  have t: "0 < real t" and c: "0 < real c" using assms by simp_all
  have r: "0 < r" using t c by (simp add: r_def)
  have u: "0 < u" "u < 1" by (simp_all add: u_def)
  have e1: "\<bar>v1 - r\<bar> \<le> r * u"
    using nearest_double_error [OF assms(1) assms(3)] by (simp add: v1_def x_def r_def u_def)
  have v1_lo: "r * (1 - u) \<le> v1" and v1_hi: "v1 \<le> 2 * r"
  proof -
    show "r * (1 - u) \<le> v1" using e1 by (simp add: algebra_simps abs_le_iff)
    have "r * u \<le> r" using r u by simp
    then show "v1 \<le> 2 * r" using e1 by (simp add: abs_le_iff)
  qed
  have "0 < r * (1 - u)" using r u by simp
  then have v1: "0 < v1" using v1_lo by linarith
  have D1: "0 < double_den x" by (rule double_den_pos)
  have N1: "0 < double_num x"
  proof (rule ccontr)
    assume "\<not> 0 < double_num x"
    then have "v1 = 0" by (simp add: v1_def)
    then show False using v1 by simp
  qed
  then have N100: "0 < 100 * double_num x" by simp
  have "\<bar>v2 - real (100 * double_num x) / real (double_den x)\<bar>
      \<le> real (100 * double_num x) / real (double_den x) / 2 ^ 53"
    using nearest_double_error [OF N100 D1] by (simp only: v2_def y_def times_100_def)
  moreover have "real (100 * double_num x) / real (double_den x) = 100 * v1"
    by (simp add: v1_def)
  ultimately have e2: "\<bar>v2 - 100 * v1\<bar> \<le> 100 * v1 * u"
    by (simp add: u_def)
  have D2: "0 < double_den y" by (rule double_den_pos)
  have "\<bar>real h - real (100 * double_num y) / real (double_den y)\<bar> \<le> 1 / 2"
    unfolding h_def hundredths_def using D2 by (rule round_half_even_error)
  moreover have "real (100 * double_num y) / real (double_den y) = 100 * v2"
    by (simp add: v2_def)
  ultimately have e3: "\<bar>real h - 100 * v2\<bar> \<le> 1 / 2"
    by simp
  have "100 * v1 * u \<le> 200 * r * u"
    using v1_hi u by simp
  then have e2': "\<bar>v2 - 100 * v1\<bar> \<le> 200 * r * u"
    using e2 by linarith
  define w where "w = r * u"
  have a1: "\<bar>v1 - r\<bar> \<le> w" using e1 by (simp add: w_def)
  have a2: "\<bar>v2 - 100 * v1\<bar> \<le> 200 * w" using e2' by (simp add: w_def)
  have "\<bar>real h - 10000 * r\<bar> \<le> 1 / 2 + 30000 * w"
    using a1 a2 e3 by linarith
  then have "\<bar>real h - 10000 * r\<bar> \<le> 1 / 2 + 30000 * r * u"
    by (simp add: w_def)
  then have "\<bar>real h - 10000 * r\<bar> * real t \<le> (1 / 2 + 30000 * r * u) * real t"
    using t by (intro mult_right_mono) simp_all
  moreover have "\<bar>real h - 10000 * r\<bar> * real t = \<bar>real h * real t - 10000 * real c\<bar>"
  proof -
    have "(real h - 10000 * r) * real t = real h * real t - 10000 * real c"
      using t by (simp add: r_def algebra_simps)
    then have "\<bar>real h * real t - 10000 * real c\<bar> = \<bar>real h - 10000 * r\<bar> * \<bar>real t\<bar>"
      by (simp only: abs_mult [symmetric])
    then show ?thesis using t by simp
  qed
  moreover have "(1 / 2 + 30000 * r * u) * real t = real t / 2 + 30000 * real c * u"
    using t by (simp add: r_def algebra_simps)
  ultimately have main: "\<bar>real h * real t - 10000 * real c\<bar> \<le> real t / 2 + 30000 * real c * u"
    by simp
  have "real (60000 * c) < real (2 ^ 53)"
    using assms(2) by (simp only: of_nat_less_iff)
  then have "30000 * real c * u < 1 / 2"
    by (simp add: u_def field_simps)
  then have "2 * \<bar>real h * real t - 10000 * real c\<bar> < real t + 1"
  proof -
    define A where "A = \<bar>real h * real t - 10000 * real c\<bar>"
    define B where "B = 30000 * real c * u"
    assume "30000 * real c * u < 1 / 2"
    then have "B < 1 / 2" by (simp only: B_def)
    moreover have "A \<le> real t / 2 + B" using main by (simp only: A_def B_def)
    ultimately have "2 * A < real t + 1" by linarith
    then show ?thesis by (simp only: A_def)
  qed
  moreover have "real_of_int (2 * \<bar>int h * int t - 10000 * int c\<bar>)
      = 2 * \<bar>real h * real t - 10000 * real c\<bar>"
    by simp
  moreover have "real_of_int (int t + 1) = real t + 1" by simp
  ultimately have "real_of_int (2 * \<bar>int h * int t - 10000 * int c\<bar>) < real_of_int (int t + 1)"
    by (simp only:)
  then have "2 * \<bar>int h * int t - 10000 * int c\<bar> < int t + 1"
    by (simp only: of_int_less_iff)
  then show ?thesis by (simp add: h_def y_def x_def)
qed

subsection \<open>Counting\<close>

lemma map_fst_dict_set: "map fst (dict_set d k v) = add_key (map fst d) k"
  by (induction d k v rule: dict_set.induct) (auto simp add: add_key_def)

lemma dict_set_new: "k \<notin> set (map fst d) \<Longrightarrow> dict_set d k v = d @ [(k, v)]"
  by (induction d k v rule: dict_set.induct) auto

lemma distinct_add_key: "distinct ks \<Longrightarrow> distinct (add_key ks k)"
  by (simp add: add_key_def)

lemma distinct_foldl_add_key: "distinct ks \<Longrightarrow> distinct (foldl add_key ks h)"
  by (induction h arbitrary: ks) (simp_all add: distinct_add_key)

lemma set_foldl_add_key: "set (foldl add_key ks h) = set ks \<union> set h"
  by (induction h arbitrary: ks) (auto simp add: add_key_def)

lemma keys_foldl_some:
  "map fst (foldl (\<lambda>d kv. dict_set d (fst kv) (Some (snd kv))) d kvs)
     = foldl add_key (map fst d) (map fst kvs)"
  by (induction kvs arbitrary: d) (simp_all add: map_fst_dict_set)

lemma keys_foldl_None:
  "map fst (foldl (\<lambda>d k. dict_set d k None) d ks) = foldl add_key (map fst d) ks"
  by (induction ks arbitrary: d) (simp_all add: map_fst_dict_set)

lemma map_fst_zip_take: "map fst (zip xs ys) = take (length ys) xs"
  by (induction xs ys rule: list_induct2') auto

lemma cols_keys_dict_row: "map fst (cols (dict_row h l)) = foldl add_key [] h"
proof -
  have a: "foldl add_key (foldl add_key [] (take (length l) h)) (drop (length l) h)
        = foldl add_key [] h"
    by (metis append_take_drop_id foldl_append)
  have b: "length h \<le> length l \<Longrightarrow> take (length l) h = h"
    by simp
  show ?thesis
    using a b
    by (auto simp add: dict_row_def Let_def keys_foldl_some keys_foldl_None map_fst_zip_take)
qed

lemma initial_counts:
  "distinct (map fst d @ ks) \<Longrightarrow>
     foldl (\<lambda>d header. dict_set d header (0::nat)) d ks = d @ map (\<lambda>k. (k, 0)) ks"
proof (induction ks arbitrary: d)
  case Nil
  then show ?case by simp
next
  case (Cons k ks)
  have new: "dict_set d k 0 = d @ [(k, 0)]"
    using Cons.prems by (simp add: dict_set_new)
  have "distinct (map fst (d @ [(k, 0)]) @ ks)"
    using Cons.prems by auto
  then show ?case
    using Cons.IH [of "d @ [(k, 0)]"] new by simp
qed

lemma dict_incr_present:
  assumes "k \<in> set (map fst d)" and "distinct (map fst d)"
  shows "dict_incr d k = Inr (map (\<lambda>kn. (fst kn, if fst kn = k then Suc (snd kn) else snd kn)) d)"
  using assms
proof (induction d)
  case Nil
  then show ?case by simp
next
  case (Cons a d)
  obtain k' n where a: "a = (k', n)" by (cases a)
  show ?case
  proof (cases "k' = k")
    case True
    then have "\<forall>kn \<in> set d. fst kn \<noteq> k" using Cons.prems(2) a by auto
    then have "map (\<lambda>kn. (fst kn, if fst kn = k then Suc (snd kn) else snd kn)) d = d"
      by (induction d) auto
    then show ?thesis using True a by simp
  next
    case False
    then have "k \<in> set (map fst d)" and "distinct (map fst d)"
      using Cons.prems a by auto
    then show ?thesis using Cons.IH False a by simp
  qed
qed

lemma count_items_counts:
  assumes "distinct (map fst items)"
    and "Some ` set (map fst items) \<subseteq> set (map fst mc)"
    and "distinct (map fst mc)"
  shows "count_items lower mc items =
           Inr (map (\<lambda>kn. (fst kn, if counted lower items (fst kn) then Suc (snd kn) else snd kn)) mc)"
  using assms
proof (induction items arbitrary: mc)
  case Nil
  have "map (\<lambda>kn. (fst kn, if counted lower [] (fst kn) then Suc (snd kn) else snd kn)) mc = mc"
    by (induction mc) (auto simp add: counted_def split: option.splits)
  then show ?case by simp
next
  case (Cons a items)
  obtain key v where a: "a = (key, v)" by (cases a)
  have fresh: "map_of items key = None"
    using Cons.prems(1) a by (simp add: map_of_eq_None_iff)
  have here: "counted lower ((key, v) # items) (Some key) = cell_missing lower v"
    by (simp add: counted_def)
  have there: "\<not> counted lower items (Some key)"
    using fresh by (simp add: counted_def)
  have other: "k \<noteq> Some key \<Longrightarrow> counted lower ((key, v) # items) k = counted lower items k" for k
    by (cases k) (auto simp add: counted_def)
  have d: "distinct (map fst items)" using Cons.prems(1) by simp
  show ?case
  proof (cases "cell_missing lower v")
    case True
    let ?mc = "map (\<lambda>kn. (fst kn, if fst kn = Some key then Suc (snd kn) else snd kn)) mc"
    have incr: "dict_incr mc (Some key) = Inr ?mc"
      using Cons.prems a by (intro dict_incr_present) auto
    have keys: "map fst ?mc = map fst mc" by (simp add: comp_def)
    have "count_items lower ?mc items =
        Inr (map (\<lambda>kn. (fst kn, if counted lower items (fst kn) then Suc (snd kn) else snd kn)) ?mc)"
    proof (rule Cons.IH [OF d])
      show "Some ` set (map fst items) \<subseteq> set (map fst ?mc)"
        unfolding keys using Cons.prems(2) by auto
      show "distinct (map fst ?mc)"
        unfolding keys by (rule Cons.prems(3))
    qed
    moreover have "map (\<lambda>kn. (fst kn, if counted lower items (fst kn) then Suc (snd kn) else snd kn)) ?mc
        = map (\<lambda>kn. (fst kn, if counted lower ((key, v) # items) (fst kn) then Suc (snd kn) else snd kn)) mc"
      using here there other True by (auto simp add: comp_def)
    ultimately show ?thesis using a True incr by simp
  next
    case False
    have "count_items lower mc items =
        Inr (map (\<lambda>kn. (fst kn, if counted lower items (fst kn) then Suc (snd kn) else snd kn)) mc)"
      using Cons.prems d by (intro Cons.IH) auto
    moreover have "map (\<lambda>kn. (fst kn, if counted lower items (fst kn) then Suc (snd kn) else snd kn)) mc
        = map (\<lambda>kn. (fst kn, if counted lower ((key, v) # items) (fst kn) then Suc (snd kn) else snd kn)) mc"
    proof -
      have "counted lower ((key, v) # items) k = counted lower items k" for k
        using here there other [of k] False by (cases "k = Some key") auto
      then show ?thesis by simp
    qed
    ultimately show ?thesis using a False by simp
  qed
qed

lemma count_rows_counts:
  assumes "\<forall>r \<in> set data. distinct (map fst (cols r))
             \<and> Some ` set (map fst (cols r)) \<subseteq> set (map fst mc)"
    and "distinct (map fst mc)"
  shows "count_rows lower mc data =
           Inr (map (\<lambda>kn. (fst kn, snd kn + length (filter (\<lambda>r. counted lower (cols r) (fst kn)) data))) mc)"
  using assms
proof (induction data arbitrary: mc)
  case Nil
  then show ?case by simp
next
  case (Cons r data)
  let ?mc = "map (\<lambda>kn. (fst kn, if counted lower (cols r) (fst kn) then Suc (snd kn) else snd kn)) mc"
  have items: "count_items lower mc (cols r) = Inr ?mc"
    using Cons.prems by (intro count_items_counts) auto
  have keys: "map fst ?mc = map fst mc" by (simp add: comp_def)
  have "count_rows lower ?mc data =
      Inr (map (\<lambda>kn. (fst kn, snd kn + length (filter (\<lambda>r. counted lower (cols r) (fst kn)) data))) ?mc)"
  proof (rule Cons.IH)
    show "\<forall>r \<in> set data. distinct (map fst (cols r))
             \<and> Some ` set (map fst (cols r)) \<subseteq> set (map fst ?mc)"
      unfolding keys using Cons.prems(1) by simp
    show "distinct (map fst ?mc)"
      unfolding keys by (rule Cons.prems(2))
  qed
  moreover have
    "map (\<lambda>kn. (fst kn, snd kn + length (filter (\<lambda>r. counted lower (cols r) (fst kn)) data))) ?mc
     = map (\<lambda>kn. (fst kn, snd kn + length (filter (\<lambda>r. counted lower (cols r) (fst kn)) (r # data)))) mc"
    by simp
  ultimately show ?case using items by simp
qed

lemma cell_missing_iff: "cell_missing lower v = absent_or_keyword lower v"
  by (cases v) (auto simp add: cell_missing_def absent_or_keyword_def missing_keywords_def Let_def)

lemma missing_count_counted:
  "missing_count lower data key = length (filter (\<lambda>r. counted lower (cols r) key) data)"
  by (cases key) (simp_all add: missing_count_def counted_def get_field_def cell_missing_iff cong: option.case_cong)

lemma reader_rows_Cons:
  assumes "reader_rows f = first # others"
  shows "\<exists>h. \<forall>r \<in> set (first # others). \<exists>l. r = dict_row h l"
proof (cases f)
  case Nil
  then show ?thesis using assms by (simp add: reader_rows_def)
next
  case (Cons h ls)
  then have "first # others = map (dict_row h) (filter (\<lambda>l. l \<noteq> []) ls)"
    using assms by (simp add: reader_rows_def)
  then have "\<forall>r \<in> set (first # others). \<exists>l. r = dict_row h l"
    by (metis (no_types, lifting) imageE list.set_map)
  then show ?thesis by blast
qed

lemma distinct_row_keys:
  "distinct (map fst (cols r)) \<Longrightarrow> distinct (row_keys r)"
  by (cases "rest r") (auto simp add: row_keys_def distinct_map comp_def inj_on_def)

lemma row_keys_cols: "Some ` set (map fst (cols r)) \<subseteq> set (row_keys r)"
  by (auto simp add: row_keys_def)

lemma counted_rows:
  assumes "reader_rows f = first # others"
  shows "count_rows lower (foldl (\<lambda>d header. dict_set d header 0) [] (row_keys first)) (first # others)
           = Inr (map (\<lambda>key. (key, missing_count lower (first # others) key)) (row_keys first))"
proof -
  obtain h where rows: "\<forall>r \<in> set (first # others). \<exists>l. r = dict_row h l"
    using reader_rows_Cons [OF assms] by blast
  let ?K = "foldl add_key [] h"
  have keys: "\<forall>r \<in> set (first # others). map fst (cols r) = ?K"
  proof
    fix r assume "r \<in> set (first # others)"
    then obtain l where "r = dict_row h l" using rows by blast
    then show "map fst (cols r) = ?K" by (simp add: cols_keys_dict_row)
  qed
  have dK: "distinct ?K" by (simp add: distinct_foldl_add_key)
  have first: "map fst (cols first) = ?K" using keys by simp
  have dist: "distinct (row_keys first)"
    using first dK by (simp add: distinct_row_keys)
  have sub: "Some ` set ?K \<subseteq> set (row_keys first)"
    using row_keys_cols [of first] by (simp only: first)
  let ?mc = "map (\<lambda>k. (k, 0::nat)) (row_keys first)"
  have init: "foldl (\<lambda>d header. dict_set d header 0) [] (row_keys first) = ?mc"
    using initial_counts [of "[]" "row_keys first"] dist by simp
  have fst_mc: "map fst ?mc = row_keys first" by (simp add: comp_def)
  have "count_rows lower ?mc (first # others) =
      Inr (map (\<lambda>kn. (fst kn, snd kn + length (filter (\<lambda>r. counted lower (cols r) (fst kn)) (first # others)))) ?mc)"
  proof (rule count_rows_counts)
    show "\<forall>r \<in> set (first # others). distinct (map fst (cols r))
             \<and> Some ` set (map fst (cols r)) \<subseteq> set (map fst ?mc)"
    proof
      fix r assume "r \<in> set (first # others)"
      then have k: "map fst (cols r) = ?K" using keys by blast
      show "distinct (map fst (cols r))
             \<and> Some ` set (map fst (cols r)) \<subseteq> set (map fst ?mc)"
        unfolding fst_mc k using dK sub by blast
    qed
    show "distinct (map fst ?mc)"
      unfolding fst_mc by (rule dist)
  qed
  then show ?thesis
    by (simp add: init comp_def missing_count_counted)
qed

lemma ragged_rows:
  "reader_rows ragged_file =
     \<lparr>cols = [(''model_name'', Some ''Aspire 5''), (''graphics'', Some ''RTX 3060'')], rest = None\<rparr>
     # [\<lparr>cols = [(''model_name'', Some ''Vivobook''), (''graphics'', Some '''')], rest = None\<rparr>,
        \<lparr>cols = [(''model_name'', Some ''Ideapad''), (''graphics'', None)], rest = None\<rparr>,
        \<lparr>cols = [(''model_name'', Some ''Pavilion''), (''graphics'', Some '' NaN '')],
         rest = Some [''surplus'']\<rparr>]"
  by (simp add: reader_rows_def ragged_file_def dict_row_def)

lemma strip_nan: "ascii_lower (strip '' NaN '') = ''nan''"
  by (simp add: strip_def whitespace_def strip_front.simps str_eval)

lemma ragged_counts:
  "missing_count ascii_lower (reader_rows ragged_file) (Some ''model_name'') = 0
   \<and> missing_count ascii_lower (reader_rows ragged_file) (Some ''graphics'') = 3"
  by (simp add: ragged_rows missing_count_def get_field_def absent_or_keyword_def
      strip_def whitespace_def strip_front.simps str_eval)

lemma ten_rows:
  "reader_rows ten_row_file =
     \<lparr>cols = [(''model_name'', Some ''Aspire 5''), (''graphics'', Some ''RTX 3060'')], rest = None\<rparr>
     # [\<lparr>cols = [(''model_name'', Some ''Vivobook''), (''graphics'', Some '''')], rest = None\<rparr>,
        \<lparr>cols = [(''model_name'', Some ''Ideapad''), (''graphics'', Some ''Intel UHD'')], rest = None\<rparr>,
        \<lparr>cols = [(''model_name'', Some ''Pavilion''), (''graphics'', Some '''')], rest = None\<rparr>,
        \<lparr>cols = [(''model_name'', Some ''Legion 5''), (''graphics'', Some ''RTX 4060'')], rest = None\<rparr>,
        \<lparr>cols = [(''model_name'', Some ''Swift 3''), (''graphics'', Some ''Iris Xe'')], rest = None\<rparr>,
        \<lparr>cols = [(''model_name'', Some ''Latitude''), (''graphics'', Some '''')], rest = None\<rparr>,
        \<lparr>cols = [(''model_name'', Some ''Zenbook''), (''graphics'', Some ''Iris Xe'')], rest = None\<rparr>,
        \<lparr>cols = [(''model_name'', Some ''Nitro 5''), (''graphics'', Some ''GTX 1650'')], rest = None\<rparr>,
        \<lparr>cols = [(''model_name'', Some ''Envy 13''), (''graphics'', Some ''Iris Xe'')], rest = None\<rparr>]"
  by (simp add: reader_rows_def ten_row_file_def dict_row_def)

lemma ten_row_counts:
  "missing_count ascii_lower (reader_rows ten_row_file) (Some ''model_name'') = 0
   \<and> missing_count ascii_lower (reader_rows ten_row_file) (Some ''graphics'') = 3"
  by (simp add: ten_rows missing_count_def get_field_def absent_or_keyword_def
      strip_def whitespace_def strip_front.simps str_eval)

lemma pct_text_examples:
  "pct_text 3 10 = ''30.00''"
  "pct_text 3 4 = ''75.00''"
  "pct_text 1 800 = ''0.12''"
  "pct_text 1 3 = ''33.33''"
  by (simp_all add: pct_text_def format_2f_def decimal_2_def hundredths_def times_100_def
      double_num_def double_den_def nearest_double_def exponent_def bitlen.simps
      round_half_even_def Let_def char_of_def bit_0)

subsection \<open>The normalizer\<close>



subsection \<open>The matcher\<close>

text \<open>
  C2: a survey record matches a catalog record when its normalized key is not empty and
  is a contiguous part of the catalog record's normalized model name, or contains it as
  one.  The matcher returns a survey record exactly when it is the first matching one in
  the loaded order, whatever follows it, and returns nothing exactly when no record
  matches.
\<close>

theorem matcher_first_match:
  "(matches (normalize_name lower name) s \<longleftrightarrow>
      model_normalized s \<noteq> [] \<and>
      ((\<exists>ps ss. normalize_name lower name = ps @ model_normalized s @ ss)
       \<or> (\<exists>ps ss. model_normalized s = ps @ normalize_name lower name @ ss)))
   \<and> (find_match (normalize_name lower name) survey_data = Some s \<longleftrightarrow>
        (\<exists>pre post. survey_data = pre @ s # post \<and> matches (normalize_name lower name) s
           \<and> (\<forall>t \<in> set pre. \<not> matches (normalize_name lower name) t)))
   \<and> (find_match (normalize_name lower name) survey_data = None \<longleftrightarrow>
        (\<forall>t \<in> set survey_data. \<not> matches (normalize_name lower name) t))"
  by (intro conjI matches_iff find_match_Some find_match_None)

theorem matcher_first_match_witness:
  "find_match (normalize_name ascii_lower (Some ''MacBook Pro 14'')) example_survey = Some macbook_answer
   \<and> example_survey = [thinkpad_answer] @ macbook_answer # [macbook_later_answer]
   \<and> matches (normalize_name ascii_lower (Some ''MacBook Pro 14'')) macbook_answer
   \<and> matches (normalize_name ascii_lower (Some ''MacBook Pro 14'')) macbook_later_answer
   \<and> \<not> matches (normalize_name ascii_lower (Some ''MacBook Pro 14'')) thinkpad_answer"
proof -
  have ex: "example_survey = [thinkpad_answer] @ macbook_answer # [macbook_later_answer]"
    by (simp add: example_survey_def)
  have m1: "matches (normalize_name ascii_lower (Some ''MacBook Pro 14'')) macbook_answer"
    by (simp add: macbook_norm matches_def macbook_answer_def)
  have m2: "matches (normalize_name ascii_lower (Some ''MacBook Pro 14'')) macbook_later_answer"
    by (simp add: macbook_norm matches_def macbook_later_answer_def)
  have m3: "\<not> matches (normalize_name ascii_lower (Some ''MacBook Pro 14'')) thinkpad_answer"
    by (simp add: macbook_norm matches_def thinkpad_answer_def)
  have "\<exists>pre post. example_survey = pre @ macbook_answer # post
          \<and> matches (normalize_name ascii_lower (Some ''MacBook Pro 14'')) macbook_answer
          \<and> (\<forall>t \<in> set pre. \<not> matches (normalize_name ascii_lower (Some ''MacBook Pro 14'')) t)"
    using ex m1 m3 by (intro exI [of _ "[thinkpad_answer]"] exI [of _ "[macbook_later_answer]"]) simp
  then have "find_match (normalize_name ascii_lower (Some ''MacBook Pro 14'')) example_survey
               = Some macbook_answer"
    using matcher_first_match [where lower = ascii_lower and name = "Some ''MacBook Pro 14''"
        and s = macbook_answer and survey_data = example_survey]
    by blast
  then show ?thesis using ex m1 m2 m3 by simp
qed

subsection \<open>Merging a catalog record\<close>

text \<open>
  What the branch for a matched record does to a cleaned record for which the classifier
  returns a bundle, when the \<open>ProgramList\<close> of the match is absent, empty, or lower-cases
  to \<open>none\<close>, \<open>nan\<close> or the empty string: only \<open>ProgramList\<close> is the classifier's.
\<close>

lemma matched_fill_frame:
  assumes "get_field r ''model_name'' = Some name"
    and "clean_row lower r = Inr cleaned"
    and "find_match (normalize_name lower name) survey_data = Some m"
    and "program_list_missing lower (ProgramList m)"
    and "get_inferred_data int_of lower cleaned = Inr inferred"
  shows "\<exists>r'. process_row int_of lower survey_data r = Inr r'
     \<and> get_field r' ''ProgramList'' = Some (Some (ProgramList inferred))
     \<and> get_field r' ''Major'' = Some (Major m)
     \<and> get_field r' ''Activities'' = Some (Activities m)
     \<and> (\<forall>k. k \<notin> {''Major'', ''Activities'', ''ProgramList''} \<longrightarrow> get_field r' k = get_field cleaned k)
     \<and> rest r' = rest cleaned"
proof -
  have "process_row int_of lower survey_data r = merge_row int_of lower (Some m) cleaned"
    using process_row_eq [OF assms(1) assms(2)] assms(3) by simp
  then show ?thesis
    using merge_row_matched_fill [OF assms(4) assms(5)]
    by (simp add: get_field_set_field rest_set_field)
qed

lemma matched_fill_frame_macbook:
  "result_field (process_row example_int ascii_lower example_survey macbook) ''ProgramList''
     = Inr (Some (Some ''Chrome, Word, Excel''))
   \<and> result_field (process_row example_int ascii_lower example_survey macbook) ''Major''
     = Inr (Some (Major macbook_answer))
   \<and> result_field (process_row example_int ascii_lower example_survey macbook) ''Activities''
     = Inr (Some (Activities macbook_answer))
   \<and> result_field (process_row example_int ascii_lower example_survey macbook) ''graphics''
     = Inr (Some (Some ''Intel Integrated Graphics''))
   \<and> ProgramList macbook_answer = Some ''None''"
proof -
  have m: "find_match (normalize_name ascii_lower (Some ''MacBook Pro 14'')) example_survey = Some macbook_answer"
    by (simp add: macbook_norm macbook_match)
  have g: "get_field macbook_cleaned ''graphics'' = Some (Some ''Intel Integrated Graphics'')"
    by (simp add: macbook_cleaned_def get_field_def)
  have l: "ProgramList low_bundle = ''Chrome, Word, Excel''"
    by (simp add: low_bundle_def)
  have a: "ProgramList macbook_answer = Some ''None''"
    by (simp add: macbook_answer_def)
  obtain r' where "process_row example_int ascii_lower example_survey macbook = Inr r'"
    and "get_field r' ''ProgramList'' = Some (Some (ProgramList low_bundle))"
    and "get_field r' ''Major'' = Some (Major macbook_answer)"
    and "get_field r' ''Activities'' = Some (Activities macbook_answer)"
    and "\<forall>k. k \<notin> {''Major'', ''Activities'', ''ProgramList''} \<longrightarrow> get_field r' k = get_field macbook_cleaned k"
    using matched_fill_frame [OF macbook_name macbook_clean m macbook_missing macbook_inferred]
    by blast
  then show ?thesis
    using g l a by (simp add: result_field_def)
qed

text \<open>
  C6 fails on a record of a short line that has a survey match: the catalog line
  \<open>Dell Inspiron 15,Intel UHD Graphics,Intel Core i5\<close> under a header of four columns
  gives the cell \<open>None\<close> for \<open>ram(GB)\<close>; the survey answer for \<open>Dell Inspiron\<close> matches
  it and has the \<open>ProgramList\<close> \<open>None\<close>; the branch for a matched record calls the
  classifier to replace it, \<open>int(None)\<close> raises \<open>TypeError\<close>, and the run ends with that
  exception and without an output file: no \<open>ProgramList\<close> is replaced, and no \<open>Major\<close> or
  \<open>Activities\<close> is kept.
\<close>

theorem matched_short_line_raises:
  "get_field short_ram_line ''model_name'' = Some (Some ''Dell Inspiron 15'')
   \<and> get_field short_ram_line ''ram(GB)'' = Some None
   \<and> read_survey ascii_lower (reader_rows dell_survey_file) = Inr [dell_answer]
   \<and> find_match (normalize_name ascii_lower (Some ''Dell Inspiron 15'')) [dell_answer] = Some dell_answer
   \<and> ProgramList dell_answer = Some ''None''
   \<and> program_list_missing ascii_lower (ProgramList dell_answer)
   \<and> process_row int_of ascii_lower [dell_answer] short_ram_line = Inl TypeError
   \<and> main int_of ascii_lower \<lparr>laptop_file = Some short_ram_file, survey_file = Some dell_survey_file\<rparr>
       = \<lparr>printed = [], output_file = None, raised = Some TypeError\<rparr>"
proof -
  have n: "get_field short_ram_line ''model_name'' = Some (Some ''Dell Inspiron 15'')"
    and ram: "get_field short_ram_line ''ram(GB)'' = Some None"
    by (simp_all add: short_ram_line_eq get_field_def)
  have survey: "read_survey ascii_lower (reader_rows dell_survey_file) = Inr [dell_answer]"
    by (simp add: reader_rows_def dell_survey_file_def dict_row_def survey_entry_def first_key_def
        row_keys_def item_def get_field_def survey_header_def normalize_name_def dell_answer_def
        str_eval)
  have m: "find_match (normalize_name ascii_lower (Some ''Dell Inspiron 15'')) [dell_answer] = Some dell_answer"
    by (simp add: normalize_name_def matches_def dell_answer_def str_eval)
  have p: "ProgramList dell_answer = Some ''None''"
    by (simp add: dell_answer_def)
  have missing: "program_list_missing ascii_lower (ProgramList dell_answer)"
    by (simp add: program_list_missing_def dell_answer_def str_eval)
  have a: "get_inferred_data int_of ascii_lower short_ram_line = Inl TypeError"
    by (simp add: short_ram_line_eq get_inferred_data_def read_ram_def get_field_def)
  have b: "get_inferred_data int_of ascii_lower
      (set_field (set_field (set_field
         (set_field (set_field short_ram_line ''screen_size(inches)'' (Some ''15.6''))
            ''resolution (pixels)'' (Some ''1920 x 1080''))
         ''Major'' (Major dell_answer)) ''Activities'' (Activities dell_answer))
         ''ProgramList'' (ProgramList dell_answer)) = Inl TypeError"
    using a by (simp add: get_inferred_data_set_other)
  have run: "process_row int_of ascii_lower [dell_answer] short_ram_line = Inl TypeError"
    using process_row_eq [where lower = ascii_lower and int_of = int_of and survey_data = "[dell_answer]",
        OF n short_ram_clean] m missing b
    by (simp add: merge_row_def Let_def)
  have rows: "reader_rows short_ram_file = [short_ram_line]"
    by (simp add: reader_rows_def short_ram_file_def short_ram_line_def)
  have "main int_of ascii_lower \<lparr>laptop_file = Some short_ram_file, survey_file = Some dell_survey_file\<rparr>
       = aborted TypeError"
    using run rows survey
    by (simp add: main_def reader_fieldnames_def short_ram_file_def)
  then show ?thesis
    using n ram survey m p missing run by (simp add: aborted_def)
qed

text \<open>
  C1, as the code has it: a record that is processed without an exception has a non-empty
  \<open>ProgramList\<close>.  Without a survey match its \<open>Major\<close>, \<open>Activities\<close> and \<open>ProgramList\<close>
  are the ones that the classifier returns for the cleaned record, and they are not empty.
  With a match its \<open>Major\<close> and \<open>Activities\<close> are the ones of the matched survey record,
  whatever these are, and its \<open>ProgramList\<close> is the one of the matched survey record unless
  that one is missing: then it is the one that the classifier returns for the cleaned
  record.
\<close>

theorem processed_row_descriptive_fields:
  assumes "process_row int_of lower survey_data r = Inr r'"
  shows "\<exists>name cleaned. get_field r ''model_name'' = Some name
     \<and> clean_row lower r = Inr cleaned
     \<and> (\<exists>p. get_field r' ''ProgramList'' = Some (Some p) \<and> p \<noteq> [])
     \<and> (find_match (normalize_name lower name) survey_data = None \<longrightarrow>
          (\<exists>b. get_inferred_data int_of lower cleaned = Inr b
             \<and> get_field r' ''Major'' = Some (Some (Major b)) \<and> Major b \<noteq> []
             \<and> get_field r' ''Activities'' = Some (Some (Activities b)) \<and> Activities b \<noteq> []
             \<and> get_field r' ''ProgramList'' = Some (Some (ProgramList b))))
     \<and> (\<forall>m. find_match (normalize_name lower name) survey_data = Some m \<longrightarrow>
          get_field r' ''Major'' = Some (Major m)
          \<and> get_field r' ''Activities'' = Some (Activities m)
          \<and> (if program_list_missing lower (ProgramList m)
             then \<exists>b. get_inferred_data int_of lower cleaned = Inr b
                    \<and> get_field r' ''ProgramList'' = Some (Some (ProgramList b))
             else get_field r' ''ProgramList'' = Some (ProgramList m)))"
proof -
  obtain name cleaned where name: "get_field r ''model_name'' = Some name"
    and cleaned: "clean_row lower r = Inr cleaned"
    and merged: "merge_row int_of lower (find_match (normalize_name lower name) survey_data) cleaned = Inr r'"
    using process_row_Inr [OF assms] by blast
  show ?thesis
  proof (cases "find_match (normalize_name lower name) survey_data")
    case None
    then have "merge_row int_of lower None cleaned = Inr r'"
      using merged by simp
    from merge_row_Inr_unmatched [OF this] show ?thesis
      using name cleaned None by auto
  next
    case (Some m)
    then have mm: "merge_row int_of lower (Some m) cleaned = Inr r'"
      using merged by simp
    show ?thesis
      using name cleaned Some merge_row_Inr_matched [OF mm] merge_row_Inr_program_list [OF mm]
      by auto
  qed
qed

theorem processed_row_descriptive_fields_witness:
  "result_field (process_row example_int ascii_lower example_survey macbook) ''ProgramList''
     = Inr (Some (Some ''Chrome, Word, Excel''))
   \<and> result_field (process_row example_int ascii_lower example_survey macbook) ''Major''
     = Inr (Some (Some ''''))
   \<and> result_field (process_row example_int ascii_lower example_survey macbook) ''Activities''
     = Inr (Some (Some ''Web Browsing and Research''))
   \<and> get_inferred_data example_int ascii_lower macbook_cleaned = Inr low_bundle
   \<and> ProgramList low_bundle = ''Chrome, Word, Excel''"
proof -
  have m: "find_match (normalize_name ascii_lower (Some ''MacBook Pro 14'')) example_survey = Some macbook_answer"
    by (simp add: macbook_norm macbook_match)
  have run: "process_row example_int ascii_lower example_survey macbook =
      Inr (set_field (set_field (set_field (set_field macbook_cleaned ''Major'' (Major macbook_answer))
             ''Activities'' (Activities macbook_answer)) ''ProgramList'' (ProgramList macbook_answer))
             ''ProgramList'' (Some (ProgramList low_bundle)))"
    using process_row_eq [OF macbook_name macbook_clean, of example_int example_survey]
      merge_row_matched_fill [OF macbook_missing macbook_inferred] m by simp
  then obtain r' where r': "process_row example_int ascii_lower example_survey macbook = Inr r'"
    by simp
  obtain name cleaned where "get_field macbook ''model_name'' = Some name"
    and "clean_row ascii_lower macbook = Inr cleaned"
    and matched: "\<forall>m. find_match (normalize_name ascii_lower name) example_survey = Some m \<longrightarrow>
          get_field r' ''Major'' = Some (Major m)
          \<and> get_field r' ''Activities'' = Some (Activities m)
          \<and> (if program_list_missing ascii_lower (ProgramList m)
             then \<exists>b. get_inferred_data example_int ascii_lower cleaned = Inr b
                    \<and> get_field r' ''ProgramList'' = Some (Some (ProgramList b))
             else get_field r' ''ProgramList'' = Some (ProgramList m))"
    using processed_row_descriptive_fields [OF r'] by blast
  then have "name = Some ''MacBook Pro 14''" and "cleaned = macbook_cleaned"
    using macbook_name macbook_clean by simp_all
  then have "get_field r' ''Major'' = Some (Major macbook_answer)
      \<and> get_field r' ''Activities'' = Some (Activities macbook_answer)
      \<and> get_field r' ''ProgramList'' = Some (Some (ProgramList low_bundle))"
    using matched m macbook_missing macbook_inferred by auto
  then show ?thesis
    using r' macbook_inferred by (simp add: result_field_def macbook_answer_def low_bundle_def)
qed

text \<open>
  C1 as stated fails: the catalog record \<open>macbook\<close> matches a survey answer whose
  \<open>Major\<close> is the empty string, and the processed record has the empty \<open>Major\<close>; the
  run on the two example files writes it to the output file.
\<close>

theorem processed_row_major_counterexample:
  "result_field (process_row example_int ascii_lower example_survey macbook) ''Major'' = Inr (Some (Some ''''))
   \<and> find_match (normalize_name ascii_lower (Some ''MacBook Pro 14'')) example_survey = Some macbook_answer
   \<and> get_field macbook ''model_name'' = Some (Some ''MacBook Pro 14'')
   \<and> survey_entry ascii_lower macbook_survey_line = Inr macbook_answer
   \<and> main example_int ascii_lower \<lparr>laptop_file = Some macbook_file, survey_file = Some macbook_survey_file\<rparr> =
     \<lparr>printed = [''Successfully merged data to dataset/merged_laptop_data_cleaned.csv''],
      output_file = Some
        [[''model_name'', ''ram(GB)'', ''graphics'', ''processor_name'',
          ''screen_size(inches)'', ''resolution (pixels)'',
          ''Major'', ''Activities'', ''ProgramList''],
         [''MacBook Pro 14'', ''4'', ''Intel Integrated Graphics'', ''Intel Core i5'',
          ''15.6'', ''1920 x 1080'',
          [], ''Web Browsing and Research'', ''Chrome, Word, Excel'']],
      raised = None\<rparr>"
proof -
  have m: "find_match (normalize_name ascii_lower (Some ''MacBook Pro 14'')) example_survey = Some macbook_answer"
    by (simp add: macbook_norm macbook_match)
  have "process_row example_int ascii_lower example_survey macbook =
      Inr (set_field (set_field (set_field (set_field macbook_cleaned ''Major'' (Major macbook_answer))
             ''Activities'' (Activities macbook_answer)) ''ProgramList'' (ProgramList macbook_answer))
             ''ProgramList'' (Some (ProgramList low_bundle)))"
    using process_row_eq [OF macbook_name macbook_clean, of example_int example_survey]
      merge_row_matched_fill [OF macbook_missing macbook_inferred] m by simp
  then have "result_field (process_row example_int ascii_lower example_survey macbook) ''Major''
      = Inr (Some (Some []))"
    by (simp add: result_field_def get_field_set_field macbook_answer_def)
  then show ?thesis
    using m macbook_name macbook_survey_entry macbook_run by simp
qed

text \<open>
  C10, as the code has it: a catalog record whose normalized name is empty matches the
  first survey record with a non-empty key, so the branch for an unmatched record is not
  taken: \<open>Major\<close> and \<open>Activities\<close> of the processed record are the ones of that survey
  record.  Its \<open>ProgramList\<close> is the one of that survey record unless that one is missing:
  then the classifier is called for the cleaned record, and the \<open>ProgramList\<close> of the
  processed record is the classifier's.
\<close>

theorem empty_name_matches_first_keyed:
  assumes "normalize_name lower name = []"
    and "\<exists>s \<in> set survey_data. model_normalized s \<noteq> []"
  shows "\<exists>pre m post. survey_data = pre @ m # post
     \<and> (\<forall>t \<in> set pre. model_normalized t = []) \<and> model_normalized m \<noteq> []
     \<and> find_match (normalize_name lower name) survey_data = Some m
     \<and> (\<forall>r r'. get_field r ''model_name'' = Some name
            \<and> process_row int_of lower survey_data r = Inr r' \<longrightarrow>
          get_field r' ''Major'' = Some (Major m)
          \<and> get_field r' ''Activities'' = Some (Activities m)
          \<and> (if program_list_missing lower (ProgramList m)
             then \<exists>cleaned b. clean_row lower r = Inr cleaned
                    \<and> get_inferred_data int_of lower cleaned = Inr b
                    \<and> get_field r' ''ProgramList'' = Some (Some (ProgramList b))
             else get_field r' ''ProgramList'' = Some (ProgramList m)))"
proof -
  obtain pre m post where split: "survey_data = pre @ m # post"
    and pre: "\<forall>t \<in> set pre. model_normalized t = []" and key: "model_normalized m \<noteq> []"
    and found: "find_match [] survey_data = Some m"
    using find_match_Nil_key [OF assms(2)] by blast
  have "get_field r' ''Major'' = Some (Major m)
      \<and> get_field r' ''Activities'' = Some (Activities m)
      \<and> (if program_list_missing lower (ProgramList m)
         then \<exists>cleaned b. clean_row lower r = Inr cleaned
                \<and> get_inferred_data int_of lower cleaned = Inr b
                \<and> get_field r' ''ProgramList'' = Some (Some (ProgramList b))
         else get_field r' ''ProgramList'' = Some (ProgramList m))"
    if r: "get_field r ''model_name'' = Some name"
      and run: "process_row int_of lower survey_data r = Inr r'" for r r'
  proof -
    obtain cleaned where cleaned: "clean_row lower r = Inr cleaned"
      and merged: "merge_row int_of lower (Some m) cleaned = Inr r'"
      using process_row_Inr [OF run] r found assms(1) by auto
    show ?thesis
      using cleaned merge_row_Inr_matched [OF merged] merge_row_Inr_program_list [OF merged]
      by auto
  qed
  then show ?thesis
    using split pre key found assms(1) by auto
qed

theorem empty_name_matches_first_keyed_witness:
  "normalize_name ascii_lower (Some ''---'') = []
   \<and> model_normalized macbook_answer \<noteq> []
   \<and> find_match (normalize_name ascii_lower (Some ''---'')) blank_first_survey = Some macbook_answer
   \<and> blank_first_survey = [blank_answer] @ macbook_answer # [thinkpad_answer]
   \<and> result_field (process_row example_int ascii_lower blank_first_survey unnamed) ''Major''
        = Inr (Some (Major macbook_answer))
   \<and> result_field (process_row example_int ascii_lower blank_first_survey unnamed) ''Activities''
        = Inr (Some (Activities macbook_answer))
   \<and> program_list_missing ascii_lower (ProgramList macbook_answer)
   \<and> get_inferred_data example_int ascii_lower unnamed = Inr low_bundle
   \<and> result_field (process_row example_int ascii_lower blank_first_survey unnamed) ''ProgramList''
        = Inr (Some (Some (ProgramList low_bundle)))"
proof -
  have key: "model_normalized macbook_answer \<noteq> []"
    by (simp add: macbook_answer_def)
  have ex: "\<exists>s \<in> set blank_first_survey. model_normalized s \<noteq> []"
    using key by (simp add: blank_first_survey_def)
  have m: "find_match (normalize_name ascii_lower (Some ''---'')) blank_first_survey = Some macbook_answer"
    by (simp add: unnamed_norm unnamed_match)
  have run: "process_row example_int ascii_lower blank_first_survey unnamed =
      Inr (set_field (set_field (set_field (set_field unnamed ''Major'' (Major macbook_answer))
             ''Activities'' (Activities macbook_answer)) ''ProgramList'' (ProgramList macbook_answer))
             ''ProgramList'' (Some (ProgramList low_bundle)))"
    using process_row_eq [OF unnamed_name unnamed_clean, of example_int blank_first_survey]
      merge_row_matched_fill [OF macbook_missing unnamed_inferred] m by simp
  then obtain r' where r': "process_row example_int ascii_lower blank_first_survey unnamed = Inr r'"
    by simp
  obtain pre m' post where "find_match (normalize_name ascii_lower (Some ''---'')) blank_first_survey = Some m'"
    and all: "\<forall>r r'. get_field r ''model_name'' = Some (Some ''---'')
            \<and> process_row example_int ascii_lower blank_first_survey r = Inr r' \<longrightarrow>
          get_field r' ''Major'' = Some (Major m')
          \<and> get_field r' ''Activities'' = Some (Activities m')
          \<and> (if program_list_missing ascii_lower (ProgramList m')
             then \<exists>cleaned b. clean_row ascii_lower r = Inr cleaned
                    \<and> get_inferred_data example_int ascii_lower cleaned = Inr b
                    \<and> get_field r' ''ProgramList'' = Some (Some (ProgramList b))
             else get_field r' ''ProgramList'' = Some (ProgramList m'))"
    using empty_name_matches_first_keyed [OF unnamed_norm ex, of example_int] by blast
  then have m': "m' = macbook_answer" using m by simp
  note step = all [rule_format, of unnamed r', OF conjI [OF unnamed_name r']]
  have "get_field r' ''Major'' = Some (Major macbook_answer)
     \<and> get_field r' ''Activities'' = Some (Activities macbook_answer)
     \<and> get_field r' ''ProgramList'' = Some (Some (ProgramList low_bundle))"
    using step m' macbook_missing unnamed_clean unnamed_inferred by auto
  then show ?thesis
    using r' unnamed_norm key m macbook_missing unnamed_inferred
    by (simp add: result_field_def blank_first_survey_def)
qed

text \<open>
  C10 as stated fails: the record \<open>unnamed\<close> matches a survey answer whose \<open>ProgramList\<close>
  is \<open>None\<close>, and the processed record has the classifier's \<open>ProgramList\<close>.
\<close>

theorem empty_name_classifier_counterexample:
  "normalize_name ascii_lower (Some ''---'') = []
   \<and> get_field unnamed ''model_name'' = Some (Some ''---'')
   \<and> find_match (normalize_name ascii_lower (Some ''---'')) blank_first_survey = Some macbook_answer
   \<and> get_inferred_data example_int ascii_lower unnamed = Inr low_bundle
   \<and> result_field (process_row example_int ascii_lower blank_first_survey unnamed) ''ProgramList''
        = Inr (Some (Some (ProgramList low_bundle)))
   \<and> ProgramList macbook_answer \<noteq> Some (ProgramList low_bundle)"
proof -
  have m: "find_match (normalize_name ascii_lower (Some ''---'')) blank_first_survey = Some macbook_answer"
    by (simp add: unnamed_norm unnamed_match)
  have run: "process_row example_int ascii_lower blank_first_survey unnamed =
      Inr (set_field (set_field (set_field (set_field unnamed ''Major'' (Major macbook_answer))
             ''Activities'' (Activities macbook_answer)) ''ProgramList'' (ProgramList macbook_answer))
             ''ProgramList'' (Some (ProgramList low_bundle)))"
    using process_row_eq [OF unnamed_name unnamed_clean, of example_int blank_first_survey]
      merge_row_matched_fill [OF macbook_missing unnamed_inferred] m by simp
  have ne: "ProgramList macbook_answer \<noteq> Some (ProgramList low_bundle)"
    by (simp add: macbook_answer_def low_bundle_def)
  show ?thesis
    using unnamed_norm unnamed_name m unnamed_inferred run ne
    by (simp add: result_field_def get_field_set_field)
qed

subsection \<open>The classifier and the imputer\<close>

text \<open>
  What \<open>get_inferred_data\<close> returns for a record whose \<open>ram(GB)\<close>, \<open>graphics\<close> and
  \<open>processor_name\<close> are text or missing keys: the high bundle when the RAM is at least 16
  or the lower-cased graphics text contains \<open>rtx\<close>, \<open>gtx\<close> or \<open>radeon rx\<close>, else the mid
  bundle when the RAM is at least 8, else the low bundle; a RAM text that \<open>int\<close> rejects
  counts as 0.  The lower-cased empty string is empty.  The three bundles differ.
\<close>

lemma get_inferred_data_tiers:
  assumes "get_field r ''ram(GB)'' \<noteq> Some None"
    and "get_field r ''graphics'' \<noteq> Some None"
    and "get_field r ''processor_name'' \<noteq> Some None"
    and "lower [] = []"
  shows "\<exists>ram gpu.
      ram = (case get_field r ''ram(GB)'' of
               Some (Some s) \<Rightarrow> (case int_of s of None \<Rightarrow> 0 | Some n \<Rightarrow> n)
             | _ \<Rightarrow> 0)
    \<and> gpu = (case get_field r ''graphics'' of Some (Some s) \<Rightarrow> lower s | _ \<Rightarrow> [])
    \<and> get_inferred_data int_of lower r =
        Inr (if ram \<ge> 16 \<or> py_in ''rtx'' gpu \<or> py_in ''gtx'' gpu \<or> py_in ''radeon rx'' gpu
             then high_bundle
             else if ram \<ge> 8 then mid_bundle else low_bundle)"
  using assms
  by (auto simp add: get_inferred_data_def read_ram_def get_lower_def Let_def split: option.splits)

lemma get_inferred_data_examples:
  "get_inferred_data example_int ascii_lower
     \<lparr>cols = [(''ram(GB)'', Some ''32''), (''graphics'', Some ''RTX 3060'')], rest = None\<rparr>
     = Inr high_bundle"
  "get_inferred_data example_int ascii_lower
     \<lparr>cols = [(''ram(GB)'', Some ''4''), (''graphics'', Some ''NVIDIA GeForce GTX 1650'')], rest = None\<rparr>
     = Inr high_bundle"
  "get_inferred_data example_int ascii_lower
     \<lparr>cols = [(''ram(GB)'', Some ''8''), (''graphics'', Some ''Intel UHD'')], rest = None\<rparr>
     = Inr mid_bundle"
  "get_inferred_data example_int ascii_lower
     \<lparr>cols = [(''ram(GB)'', Some ''4''), (''graphics'', Some ''Intel UHD'')], rest = None\<rparr>
     = Inr low_bundle"
  "get_inferred_data example_int ascii_lower
     \<lparr>cols = [(''ram(GB)'', Some ''invalid''), (''graphics'', Some ''Intel UHD'')], rest = None\<rparr>
     = Inr low_bundle"
  "get_inferred_data example_int ascii_lower \<lparr>cols = [], rest = None\<rparr> = Inr low_bundle"
  by (simp_all add: get_inferred_data_def read_ram_def get_lower_def get_field_def
      example_int_def str_eval)

lemma bundles_distinct:
  "high_bundle \<noteq> mid_bundle \<and> high_bundle \<noteq> low_bundle \<and> mid_bundle \<noteq> low_bundle"
  by (simp add: high_bundle_def mid_bundle_def low_bundle_def)

text \<open>
  C3 fails on a record of a short line: \<open>DictReader\<close> gives the cell \<open>None\<close> for
  \<open>ram(GB)\<close>, \<open>int(None)\<close> raises \<open>TypeError\<close>, the handler catches \<open>ValueError\<close> only,
  and the exception leaves \<open>get_inferred_data\<close> and \<open>main\<close>.
\<close>

theorem classifier_short_line_raises:
  "get_inferred_data int_of lower short_ram_line = Inl TypeError
   \<and> process_row int_of lower [] short_ram_line = Inl TypeError
   \<and> main int_of lower \<lparr>laptop_file = Some short_ram_file, survey_file = Some empty_survey_file\<rparr>
       = \<lparr>printed = [], output_file = None, raised = Some TypeError\<rparr>"
proof -
  have a: "get_inferred_data int_of lower short_ram_line = Inl TypeError"
    by (simp add: short_ram_line_eq get_inferred_data_def read_ram_def get_field_def)
  have n: "get_field short_ram_line ''model_name'' = Some (Some ''Dell Inspiron 15'')"
    by (simp add: short_ram_line_eq get_field_def)
  have b: "get_inferred_data int_of lower
      (set_field (set_field short_ram_line ''screen_size(inches)'' (Some ''15.6''))
            ''resolution (pixels)'' (Some ''1920 x 1080'')) = Inl TypeError"
    using a by (simp add: get_inferred_data_set_other)
  have p: "process_row int_of lower [] short_ram_line = Inl TypeError"
    using process_row_eq [where lower = lower and int_of = int_of and survey_data = "[]",
        OF n short_ram_clean] b by (simp add: merge_row_def)
  have rows: "reader_rows short_ram_file = [short_ram_line]"
    by (simp add: reader_rows_def short_ram_file_def short_ram_line_def)
  have "main int_of lower \<lparr>laptop_file = Some short_ram_file, survey_file = Some empty_survey_file\<rparr>
       = aborted TypeError"
    using p rows
    by (simp add: main_def reader_rows_def reader_fieldnames_def empty_survey_file_def short_ram_file_def)
  then show ?thesis using a p by (simp add: aborted_def)
qed

text \<open>
  What the imputer does for a record whose \<open>graphics\<close> is a placeholder and whose
  \<open>processor_name\<close> is text or a missing key; the lower-cased empty string is empty.
\<close>

lemma impute_graphics_placeholder:
  assumes "is_placeholder (get_field r ''graphics'')"
    and "get_field r ''processor_name'' \<noteq> Some None"
    and "lower [] = []"
  shows "\<exists>proc. proc = (case get_field r ''processor_name'' of Some (Some s) \<Rightarrow> lower s | _ \<Rightarrow> [])
    \<and> impute_graphics lower r =
        Inr (set_field r ''graphics''
          (Some (if py_in ''intel'' proc then ''Intel Integrated Graphics''
                 else if py_in ''amd'' proc \<or> py_in ''ryzen'' proc then ''AMD Radeon Graphics''
                 else ''Integrated Graphics'')))"
  using assms
  by (auto simp add: impute_graphics_def get_lower_def split: option.splits)

text \<open>
  C4 fails on a record of a short line: \<open>graphics\<close> and \<open>processor_name\<close> are both the
  cell \<open>None\<close>, \<open>row.get('processor_name', '')\<close> returns \<open>None\<close>, and calling \<open>lower\<close> on
  it raises \<open>AttributeError\<close>.
\<close>

theorem imputer_short_line_raises:
  "get_field short_processor_line ''graphics'' = Some None
   \<and> get_field short_processor_line ''processor_name'' = Some None
   \<and> impute_graphics lower short_processor_line = Inl AttributeError
   \<and> process_row int_of lower survey_data short_processor_line = Inl AttributeError
   \<and> main int_of lower \<lparr>laptop_file = Some short_processor_file, survey_file = Some empty_survey_file\<rparr>
       = \<lparr>printed = [], output_file = None, raised = Some AttributeError\<rparr>"
proof -
  have a: "impute_graphics lower short_processor_line = Inl AttributeError"
    by (simp add: short_processor_line_eq impute_graphics_def is_placeholder_def get_lower_def
        get_field_def)
  have p: "process_row int_of lower sd short_processor_line = Inl AttributeError" for sd
    using a by (simp add: process_row_def clean_row_def short_processor_line_eq get_field_def)
  have rows: "reader_rows short_processor_file = [short_processor_line]"
    by (simp add: reader_rows_def short_processor_file_def short_processor_line_def)
  have "main int_of lower \<lparr>laptop_file = Some short_processor_file, survey_file = Some empty_survey_file\<rparr>
       = aborted AttributeError"
    using p [of "[]"] rows
    by (simp add: main_def reader_rows_def reader_fieldnames_def empty_survey_file_def
        short_processor_file_def)
  then show ?thesis
    using a p by (simp add: aborted_def short_processor_line_eq get_field_def)
qed

subsection \<open>Failures of a run\<close>

text \<open>
  C8, as the code has it: when both files exist and the survey has an answer while its
  header lacks an expected column, the run ends at the first answer with an uncaught
  exception and writes no output file.  The exception is \<open>IndexError\<close>, from the empty
  list of column names, unless the first answer has more fields than the header: then
  the key \<open>None\<close> of its record has no method \<open>lower\<close> and the exception is
  \<open>AttributeError\<close>.
\<close>

theorem malformed_survey_aborts:
  assumes "survey = header # lines"
    and "filter (\<lambda>l. l \<noteq> []) lines = first # others"
    and "lacks_expected_column lower header"
  shows "main int_of lower \<lparr>laptop_file = Some laptop, survey_file = Some survey\<rparr>
           = \<lparr>printed = [], output_file = None,
              raised = Some (if length header < length first then AttributeError else IndexError)\<rparr>"
proof -
  have "reader_rows survey = dict_row header first # map (dict_row header) others"
    using assms(1) assms(2) by (simp add: reader_rows_def)
  then have "read_survey lower (reader_rows survey)
               = Inl (if length header < length first then AttributeError else IndexError)"
    using survey_entry_dict_row [OF assms(3), of first] by simp
  then show ?thesis
    by (simp add: main_def aborted_def)
qed

theorem malformed_survey_aborts_witness:
  "main example_int ascii_lower \<lparr>laptop_file = Some one_laptop_file, survey_file = Some no_major_survey\<rparr>
     = \<lparr>printed = [], output_file = None, raised = Some IndexError\<rparr>"
proof -
  have a: "no_major_survey =
      [''Timestamp'', ''What is the laptop model you primarily use for your studies?'']
        # [[''2024-01-01'', ''MacBook Pro'']]"
    by (simp add: no_major_survey_def)
  have b: "filter (\<lambda>l. l \<noteq> []) [[''2024-01-01'', ''MacBook Pro'']]
             = [''2024-01-01'', ''MacBook Pro''] # []"
    by simp
  show ?thesis
    using malformed_survey_aborts [OF a b no_major_lacks, of example_int one_laptop_file] by simp
qed

text \<open>
  C8 as stated fails: a survey without a column for the major whose first answer is longer
  than the header ends the run with \<open>AttributeError\<close>, not with an out-of-range lookup.
\<close>

theorem malformed_survey_long_line_counterexample:
  "long_line_survey =
      [''Timestamp'', ''What is the laptop model you primarily use for your studies?'']
        # [[''2024-01-01'', ''MacBook Pro'', ''Software Engineering'']]
   \<and> lacks_expected_column ascii_lower
        [''Timestamp'', ''What is the laptop model you primarily use for your studies?'']
   \<and> raised (main example_int ascii_lower
        \<lparr>laptop_file = Some one_laptop_file, survey_file = Some long_line_survey\<rparr>)
       = Some AttributeError
   \<and> raised (main example_int ascii_lower
        \<lparr>laptop_file = Some one_laptop_file, survey_file = Some long_line_survey\<rparr>)
       \<noteq> Some IndexError"
proof -
  have a: "long_line_survey =
      [''Timestamp'', ''What is the laptop model you primarily use for your studies?'']
        # [[''2024-01-01'', ''MacBook Pro'', ''Software Engineering'']]"
    by (simp add: long_line_survey_def)
  have r: "reader_rows long_line_survey =
     [dict_row [''Timestamp'', ''What is the laptop model you primarily use for your studies?'']
        [''2024-01-01'', ''MacBook Pro'', ''Software Engineering'']]"
    by (simp add: reader_rows_def a)
  have e: "survey_entry ascii_lower
     (dict_row [''Timestamp'', ''What is the laptop model you primarily use for your studies?'']
        [''2024-01-01'', ''MacBook Pro'', ''Software Engineering'']) = Inl AttributeError"
    by (rule survey_entry_long) (simp add: rest_dict_row)
  have "main example_int ascii_lower
        \<lparr>laptop_file = Some one_laptop_file, survey_file = Some long_line_survey\<rparr>
      = aborted AttributeError"
    using r e by (simp add: main_def)
  then show ?thesis
    using no_major_lacks a by (simp add: aborted_def)
qed

text \<open>
  C9: a missing catalog file, or a missing survey file, makes \<open>main\<close> print one message
  and return without an exception and without an output file; \<open>analyze_missing\<close> prints
  \<open>File not found\<close> for a missing file and \<open>Error\<close> with the exception for any other fault
  of opening or reading, and no exception ever reaches its caller.
\<close>

theorem missing_input_file_reported:
  "(laptop_file fs = None \<longrightarrow>
      main int_of lower fs =
        \<lparr>printed = [''Error: dataset/laptop.csv not found.''],
         output_file = None, raised = None\<rparr>)
   \<and> (laptop_file fs \<noteq> None \<and> survey_file fs = None \<longrightarrow>
      main int_of lower fs =
        \<lparr>printed = [''Error: dataset/UIT Student Laptop Usage Survey (Responses) - Form responses 1.csv not found.''],
         output_file = None, raised = None\<rparr>)
   \<and> analyze_missing lower file_path (Inl FileNotFoundError) =
        ([Line (''Analyzing '' @ file_path @ ''...''), Line (''File not found: '' @ file_path)], None)
   \<and> (e \<noteq> FileNotFoundError \<longrightarrow>
        analyze_missing lower file_path (Inl e) =
          ([Line (''Analyzing '' @ file_path @ ''...''), Error_line e], None))
   \<and> snd (analyze_missing lower file_path opened) = None"
proof -
  have a: "laptop_file fs = None \<longrightarrow>
      main int_of lower fs =
        \<lparr>printed = [''Error: dataset/laptop.csv not found.''],
         output_file = None, raised = None\<rparr>"
    by (simp add: main_def)
  have b: "laptop_file fs \<noteq> None \<and> survey_file fs = None \<longrightarrow>
      main int_of lower fs =
        \<lparr>printed = [''Error: dataset/UIT Student Laptop Usage Survey (Responses) - Form responses 1.csv not found.''],
         output_file = None, raised = None\<rparr>"
    by (auto simp add: main_def)
  have c: "analyze_missing lower file_path (Inl FileNotFoundError) =
        ([Line (''Analyzing '' @ file_path @ ''...''), Line (''File not found: '' @ file_path)], None)"
    by (simp add: analyze_missing_def analyze_try_def)
  have d: "e \<noteq> FileNotFoundError \<longrightarrow>
        analyze_missing lower file_path (Inl e) =
          ([Line (''Analyzing '' @ file_path @ ''...''), Error_line e], None)"
    by (cases e) (simp_all add: analyze_missing_def analyze_try_def)
  have f: "snd (analyze_missing lower file_path opened) = None"
    by (simp add: analyze_missing_def split: prod.splits option.splits py_error.splits)
  show ?thesis using a b c d f by blast
qed

theorem missing_input_file_reported_witness:
  "main example_int ascii_lower \<lparr>laptop_file = None, survey_file = Some no_major_survey\<rparr> =
        \<lparr>printed = [''Error: dataset/laptop.csv not found.''],
         output_file = None, raised = None\<rparr>
   \<and> main example_int ascii_lower \<lparr>laptop_file = Some one_laptop_file, survey_file = None\<rparr> =
        \<lparr>printed = [''Error: dataset/UIT Student Laptop Usage Survey (Responses) - Form responses 1.csv not found.''],
         output_file = None, raised = None\<rparr>
   \<and> analyze_missing ascii_lower ''dataset/merged_laptop_data_cleaned.csv'' (Inl OtherError) =
          ([Line ''Analyzing dataset/merged_laptop_data_cleaned.csv...'', Error_line OtherError], None)"
  using missing_input_file_reported
    [where fs = "\<lparr>laptop_file = None, survey_file = Some no_major_survey\<rparr>"
       and int_of = example_int and lower = ascii_lower
       and file_path = "''dataset/merged_laptop_data_cleaned.csv''" and e = OtherError
       and opened = "Inl OtherError"]
    missing_input_file_reported
    [where fs = "\<lparr>laptop_file = Some one_laptop_file, survey_file = None\<rparr>"
       and int_of = example_int and lower = ascii_lower
       and file_path = "''dataset/merged_laptop_data_cleaned.csv''" and e = OtherError
       and opened = "Inl OtherError"]
  by simp

subsection \<open>The analyzer\<close>

text \<open>
  C7: for a file without records the analyzer prints \<open>No data found.\<close> and stops.
  Otherwise it prints the number of records and, for every key of the first record in
  order, one line: the key with the number of records whose cell under that key is
  missing (absent, or \<open>nan\<close>, \<open>none\<close>, \<open>null\<close>, \<open>missing\<close> or empty once stripped and
  lower-cased), followed by the percentage when the number is positive, and the key with
  the literal \<open>0\<close> when it is zero.  The percentage is the text, with two decimals, of the
  hundredths nearest to the double-precision product by 100 of the double-precision
  quotient of that number and the number of records: for 3 of 10 records it is \<open>30.00\<close>.
  For a number below \<open>2 ^ 53 / 60000\<close> these hundredths are within half a hundredth of
  the exact percentage: \<open>h\<close> hundredths are printed for the count \<open>c\<close> of \<open>t\<close> records
  with \<open>2 * \<bar>h * t - 10000 * c\<bar> \<le> t\<close>.
\<close>

theorem analyze_missing_report:
  "(reader_rows f = [] \<longrightarrow>
      analyze_missing lower file_path (Inr f) =
        ([Line (''Analyzing '' @ file_path @ ''...''), Line ''No data found.''], None))
   \<and> (\<forall>first others. reader_rows f = first # others \<longrightarrow>
      analyze_missing lower file_path (Inr f) =
        ([Line (''Analyzing '' @ file_path @ ''...''),
          Line (''Total Rows: '' @ str_nat (length (first # others))),
          Line (CHR 0x0A # ''Missing Values per Column:'')]
         @ map (\<lambda>key. report_line (length (first # others))
                        (key, missing_count lower (first # others) key))
               (row_keys first),
         None))
   \<and> report_line total_rows (key, 0) = Line (str_key key @ '': 0'')
   \<and> report_line total_rows (key, Suc n) =
        Line (str_key key @ '': '' @ str_nat (Suc n) @ '' (''
              @ decimal_2 (hundredths (times_100 (nearest_double (Suc n) total_rows))) @ ''%)'')
   \<and> (0 < total_rows \<and> 60000 * Suc n < 2 ^ 53 \<longrightarrow>
        2 * \<bar>int (hundredths (times_100 (nearest_double (Suc n) total_rows))) * int total_rows
               - 10000 * int (Suc n)\<bar> \<le> int total_rows)
   \<and> decimal_2 (hundredths (times_100 (nearest_double 3 10))) = ''30.00''"
proof -
  have a: "reader_rows f = [] \<longrightarrow>
      analyze_missing lower file_path (Inr f) =
        ([Line (''Analyzing '' @ file_path @ ''...''), Line ''No data found.''], None)"
    by (simp add: analyze_missing_def analyze_try_def)
  have b: "analyze_missing lower file_path (Inr f) =
        ([Line (''Analyzing '' @ file_path @ ''...''),
          Line (''Total Rows: '' @ str_nat (length (first # others))),
          Line (CHR 0x0A # ''Missing Values per Column:'')]
         @ map (\<lambda>key. report_line (length (first # others))
                        (key, missing_count lower (first # others) key))
               (row_keys first),
         None)"
    if rows: "reader_rows f = first # others" for first others
    using counted_rows [OF rows] rows
    by (simp add: analyze_missing_def analyze_try_def Let_def comp_def del: str_nat.simps)
  have c: "report_line total_rows (key, 0) = Line (str_key key @ '': 0'')"
    by (simp add: report_line_def)
  have d: "report_line total_rows (key, Suc n) =
        Line (str_key key @ '': '' @ str_nat (Suc n) @ '' (''
              @ decimal_2 (hundredths (times_100 (nearest_double (Suc n) total_rows))) @ ''%)'')"
    by (simp add: report_line_def pct_text_def format_2f_def del: str_nat.simps)
  have e: "0 < total_rows \<and> 60000 * Suc n < 2 ^ 53 \<longrightarrow>
        2 * \<bar>int (hundredths (times_100 (nearest_double (Suc n) total_rows))) * int total_rows
               - 10000 * int (Suc n)\<bar> \<le> int total_rows"
    using hundredths_accurate [of "Suc n" total_rows] by simp
  have f: "decimal_2 (hundredths (times_100 (nearest_double 3 10))) = ''30.00''"
    using pct_text_examples(1) by (simp only: pct_text_def format_2f_def)
  show ?thesis using a b c d e f by blast
qed

theorem analyze_missing_report_witness:
  "analyze_missing ascii_lower ''merged.csv'' (Inr ragged_file) =
     ([Line ''Analyzing merged.csv...'',
       Line ''Total Rows: 4'',
       Line (CHR 0x0A # ''Missing Values per Column:''),
       Line ''model_name: 0'',
       Line ''graphics: 3 (75.00%)''], None)
   \<and> analyze_missing ascii_lower ''merged.csv'' (Inr ten_row_file) =
     ([Line ''Analyzing merged.csv...'',
       Line ''Total Rows: 10'',
       Line (CHR 0x0A # ''Missing Values per Column:''),
       Line ''model_name: 0'',
       Line ''graphics: 3 (30.00%)''], None)
   \<and> analyze_missing ascii_lower ''merged.csv'' (Inr [[''model_name'', ''graphics'']]) =
     ([Line ''Analyzing merged.csv...'', Line ''No data found.''], None)
   \<and> hundredths (times_100 (nearest_double 3 10)) = 3000
   \<and> 2 * \<bar>int (hundredths (times_100 (nearest_double 3 10))) * 10 - 10000 * 3\<bar> \<le> (10::int)"
proof -
  have empty: "reader_rows [[''model_name'', ''graphics'']] = []"
    by (simp add: reader_rows_def)
  have n4: "str_nat 4 = ''4''" and n3: "str_nat 3 = ''3''" and n10: "str_nat 10 = ''10''"
    by (simp_all add: char_of_def bit_0)
  have p4: "pct_text 3 4 = ''75.00''" and p10: "pct_text 3 10 = ''30.00''"
    using pct_text_examples by simp_all
  have a: "analyze_missing ascii_lower ''merged.csv'' (Inr [[''model_name'', ''graphics'']]) =
     ([Line ''Analyzing merged.csv...'', Line ''No data found.''], None)"
    using analyze_missing_report
      [where f = "[[''model_name'', ''graphics'']]" and lower = ascii_lower
         and file_path = "''merged.csv''"]
      empty by simp
  obtain first others where rows: "reader_rows ragged_file = first # others"
    and keys: "row_keys first = [Some ''model_name'', Some ''graphics'']"
    and len: "length (first # others) = 4"
    using ragged_rows by (simp add: row_keys_def)
  have c1: "missing_count ascii_lower (first # others) (Some ''model_name'') = 0"
    and c2: "missing_count ascii_lower (first # others) (Some ''graphics'') = 3"
    using ragged_counts unfolding rows by simp_all
  note report = analyze_missing_report
      [where f = ragged_file and lower = ascii_lower and file_path = "''merged.csv''",
       THEN conjunct2, THEN conjunct1, rule_format, OF rows]
  have b: "analyze_missing ascii_lower ''merged.csv'' (Inr ragged_file) =
     ([Line ''Analyzing merged.csv...'',
       Line ''Total Rows: 4'',
       Line (CHR 0x0A # ''Missing Values per Column:''),
       Line ''model_name: 0'',
       Line ''graphics: 3 (75.00%)''], None)"
    using report unfolding len keys
    by (simp add: c1 c2 n4 n3 p4 report_line_def str_key_def del: str_nat.simps)
  obtain first' others' where rows': "reader_rows ten_row_file = first' # others'"
    and keys': "row_keys first' = [Some ''model_name'', Some ''graphics'']"
    and len': "length (first' # others') = 10"
    using ten_rows by (simp add: row_keys_def)
  have d1: "missing_count ascii_lower (first' # others') (Some ''model_name'') = 0"
    and d2: "missing_count ascii_lower (first' # others') (Some ''graphics'') = 3"
    using ten_row_counts unfolding rows' by simp_all
  note report' = analyze_missing_report
      [where f = ten_row_file and lower = ascii_lower and file_path = "''merged.csv''",
       THEN conjunct2, THEN conjunct1, rule_format, OF rows']
  have c: "analyze_missing ascii_lower ''merged.csv'' (Inr ten_row_file) =
     ([Line ''Analyzing merged.csv...'',
       Line ''Total Rows: 10'',
       Line (CHR 0x0A # ''Missing Values per Column:''),
       Line ''model_name: 0'',
       Line ''graphics: 3 (30.00%)''], None)"
    using report' unfolding len' keys'
    by (simp add: d1 d2 n10 n3 p10 report_line_def str_key_def del: str_nat.simps)
  have h: "hundredths (times_100 (nearest_double 3 10)) = 3000"
    by (simp add: hundredths_def times_100_def double_num_def double_den_def
        nearest_double_def exponent_def bitlen.simps round_half_even_def Let_def)
  have "2 * \<bar>int (hundredths (times_100 (nearest_double (Suc 2) 10))) * int 10
               - 10000 * int (Suc 2)\<bar> \<le> int 10"
    using analyze_missing_report [where n = 2 and total_rows = 10]
    by (simp del: of_nat_Suc of_nat_numeral)
  then have acc: "2 * \<bar>int (hundredths (times_100 (nearest_double 3 10))) * 10 - 10000 * 3\<bar> \<le> (10::int)"
    by (simp add: numeral_3_eq_3)
  show ?thesis using a b c h acc by simp
qed

end
